theory Spec2Isabelle
  imports Main
begin

section \<open>JavaScript strings\<close>

text \<open>
  A JavaScript string is modelled as a HOL \<open>string\<close>; a \<open>char\<close> stands for a code
  unit below 256 (Latin-1). \<open>is_js_space\<close> is the white space of \<open>String.prototype.trim\<close>
  and of the regular-expression class \<open>\s\<close> in that range: TAB, LF, VT, FF, CR, SP, NBSP.
\<close>

definition is_js_space :: "char \<Rightarrow> bool" where
  "is_js_space c = ((of_char c :: nat) \<in> {9, 10, 11, 12, 13, 32, 160})"

definition trim :: "string \<Rightarrow> string" where
  "trim s = rev (dropWhile is_js_space (rev (dropWhile is_js_space s)))"

definition lower_char :: "char \<Rightarrow> char" where
  "lower_char c =
     (let n = (of_char c :: nat)
      in if (65 \<le> n \<and> n \<le> 90) \<or> (192 \<le> n \<and> n \<le> 222 \<and> n \<noteq> 215)
         then char_of (n + 32) else c)"

definition toLowerCase :: "string \<Rightarrow> string" where
  "toLowerCase s = map lower_char s"

definition is_digit :: "char \<Rightarrow> bool" where
  "is_digit c = (48 \<le> (of_char c :: nat) \<and> (of_char c :: nat) \<le> 57)"

text \<open>A number in a template literal: its decimal digits.\<close>

function decimal :: "nat \<Rightarrow> string" where
  "decimal n =
     (if n < 10 then [char_of (48 + n)]
      else decimal (n div 10) @ [char_of (48 + n mod 10)])"
  by pat_completeness auto
termination
  by (relation "measure (\<lambda>n. n)") auto

declare decimal.simps [simp del]

section \<open>Regular expressions\<close>

text \<open>
  Both patterns of the validator are anchored with \<open>^\<close> and \<open>$\<close> and carry no flags, so
  \<open>RegExp.prototype.test\<close> succeeds exactly when the whole string belongs to the pattern
  between the anchors. \<open>rx\<close> is that pattern; \<open>rx_test\<close> matches by derivatives.
\<close>

datatype rx =
    Zero
  | One
  | Atom "char \<Rightarrow> bool"
  | Alt rx rx
  | Seq rx rx
  | Star rx

definition Plus :: "rx \<Rightarrow> rx" where
  "Plus r = Seq r (Star r)"

fun Times :: "nat \<Rightarrow> rx \<Rightarrow> rx" where
  "Times 0 r = One"
| "Times (Suc n) r = Seq r (Times n r)"

definition Lit :: "char \<Rightarrow> rx" where
  "Lit c = Atom (\<lambda>x. x = c)"

fun nullable :: "rx \<Rightarrow> bool" where
  "nullable Zero = False"
| "nullable One = True"
| "nullable (Atom p) = False"
| "nullable (Alt r s) = (nullable r \<or> nullable s)"
| "nullable (Seq r s) = (nullable r \<and> nullable s)"
| "nullable (Star r) = True"

fun deriv :: "char \<Rightarrow> rx \<Rightarrow> rx" where
  "deriv c Zero = Zero"
| "deriv c One = Zero"
| "deriv c (Atom p) = (if p c then One else Zero)"
| "deriv c (Alt r s) = Alt (deriv c r) (deriv c s)"
| "deriv c (Seq r s) =
     (if nullable r then Alt (Seq (deriv c r) s) (deriv c s) else Seq (deriv c r) s)"
| "deriv c (Star r) = Seq (deriv c r) (Star r)"

fun rx_test :: "rx \<Rightarrow> string \<Rightarrow> bool" where
  "rx_test r [] = nullable r"
| "rx_test r (c # cs) = rx_test (deriv c r) cs"

text \<open>The language of a pattern, against which the matcher is justified.\<close>

inductive_set star :: "string set \<Rightarrow> string set" for L :: "string set" where
  star_nil: "[] \<in> star L"
| star_app: "u \<in> L \<Longrightarrow> v \<in> star L \<Longrightarrow> u @ v \<in> star L"

fun lang :: "rx \<Rightarrow> string set" where
  "lang Zero = {}"
| "lang One = {[]}"
| "lang (Atom p) = {[c] |c. p c}"
| "lang (Alt r s) = lang r \<union> lang s"
| "lang (Seq r s) = {u @ v |u v. u \<in> lang r \<and> v \<in> lang s}"
| "lang (Star r) = star (lang r)"

text \<open>\<open>/^[^\s@]+@[^\s@]+\.[^\s@]+$/\<close> and \<open>/^\+91[6-9]\d{9}$/\<close>.\<close>

definition not_space_at :: "char \<Rightarrow> bool" where
  "not_space_at c = (\<not> is_js_space c \<and> c \<noteq> CHR ''@'')"

definition emailRegex :: rx where
  "emailRegex =
     Seq (Plus (Atom not_space_at))
       (Seq (Lit CHR ''@'')
         (Seq (Plus (Atom not_space_at))
           (Seq (Lit CHR ''.'') (Plus (Atom not_space_at)))))"

definition six_to_nine :: "char \<Rightarrow> bool" where
  "six_to_nine c = (54 \<le> (of_char c :: nat) \<and> (of_char c :: nat) \<le> 57)"

definition phoneRegex :: rx where
  "phoneRegex =
     Seq (Lit CHR ''+'')
       (Seq (Lit CHR ''9'')
         (Seq (Lit CHR ''1'')
           (Seq (Atom six_to_nine) (Times 9 (Atom is_digit)))))"

section \<open>Errors\<close>

text \<open>
  A thrown JavaScript error: its numeric \<open>code\<close>, if it has one, and its message. The
  handler's \<open>catch\<close> block reads both. The application's error handler also asks whether
  the error is one of the upload middleware's (\<open>MulterError\<close>), whose codes are not numbers.
\<close>

datatype js_error =
    JsError (code: "nat option") (err_message: string)
  | MulterError (err_message: string)
where
  "code (MulterError m) = None"

text \<open>
  The type errors of this program: a method called on \<open>undefined\<close> or \<open>null\<close>, and a
  method that the value does not have (\<open>expr.name is not a function\<close>).
\<close>

definition TypeError :: "string \<Rightarrow> string \<Rightarrow> js_error" where
  "TypeError what prop =
     JsError None (''Cannot read properties of '' @ what @ '' (reading '' @ [CHR 0x27] @ prop @
       [CHR 0x27] @ '')'')"

definition NotAFunction :: "string \<Rightarrow> string \<Rightarrow> js_error" where
  "NotAFunction expr prop = JsError None (expr @ ''.'' @ prop @ '' is not a function'')"

definition and_then :: "js_error + 'a \<Rightarrow> ('a \<Rightarrow> js_error + 'b) \<Rightarrow> js_error + 'b" where
  "and_then m k = (case m of Inl error \<Rightarrow> Inl error | Inr x \<Rightarrow> k x)"

section \<open>JavaScript values\<close>

text \<open>
  A field of \<open>req.body\<close> is whatever the body parsers put there. A text part of a
  multipart form is a string; a part sent twice, or named \<open>name[]\<close>, is an array; a part
  named \<open>name[key]\<close> is an object; a JSON body can also hold \<open>null\<close>, booleans and
  numbers. A field that was not sent is \<open>undefined\<close> (\<open>None\<close>).

  A number is modelled by an integer: the code only tests a number for being zero, converts
  it to a string for the two patterns, which no number's digits match, and fails to find
  string methods on it. Of an object the code can observe only that it is not a string and
  what converting it to a string does, so \<open>JObj\<close> keeps that alone: \<open>JObj True\<close> is an
  object that inherits \<open>Object.prototype.toString\<close>, \<open>JObj False\<close> one whose conversion
  throws (the prototype-less objects of the multipart parser).
\<close>

datatype jsval =
    JNull
  | JBool bool
  | JNum int
  | JStr string
  | JArr "jsval list"
  | JObj bool

text \<open>The condition \<open>v\<close> of an \<open>if\<close>, and \<open>!v\<close> its negation.\<close>

fun truthy :: "jsval option \<Rightarrow> bool" where
  "truthy None = False"
| "truthy (Some JNull) = False"
| "truthy (Some (JBool b)) = b"
| "truthy (Some (JNum n)) = (n \<noteq> 0)"
| "truthy (Some (JStr s)) = (s \<noteq> [])"
| "truthy (Some (JArr xs)) = True"
| "truthy (Some (JObj c)) = True"

definition num_string :: "int \<Rightarrow> string" where
  "num_string n = (if n < 0 then CHR ''-'' # decimal (nat (- n)) else decimal (nat n))"

text \<open>
  The conversion to a string that \<open>RegExp.prototype.test\<close> applies to its argument. An
  array is its elements joined by commas, \<open>null\<close> elements giving the empty string.
\<close>

fun to_string :: "jsval \<Rightarrow> js_error + string"
  and join :: "jsval list \<Rightarrow> js_error + string" where
  "to_string JNull = Inr ''null''"
| "to_string (JBool b) = Inr (if b then ''true'' else ''false'')"
| "to_string (JNum n) = Inr (num_string n)"
| "to_string (JStr s) = Inr s"
| "to_string (JArr xs) = join xs"
| "to_string (JObj c) =
     (if c then Inr ''[object Object]''
      else Inl (JsError None ''Cannot convert object to primitive value''))"
| "join [] = Inr []"
| "join (x # xs) =
     (case (case x of JNull \<Rightarrow> Inr [] | _ \<Rightarrow> to_string x) of
        Inl error \<Rightarrow> Inl error
      | Inr s \<Rightarrow>
          (case xs of
             [] \<Rightarrow> Inr s
           | _ \<Rightarrow> (case join xs of Inl error \<Rightarrow> Inl error | Inr r \<Rightarrow> Inr (s @ '','' @ r))))"

text \<open>
  \<open>expr.name()\<close> for a method of strings, \<open>f\<close> being what the method computes: only a
  string has it.
\<close>

definition call_string_method ::
  "string \<Rightarrow> jsval option \<Rightarrow> string \<Rightarrow> (string \<Rightarrow> 'a) \<Rightarrow> js_error + 'a" where
  "call_string_method expr v name f =
     (case v of
        None \<Rightarrow> Inl (TypeError ''undefined'' name)
      | Some JNull \<Rightarrow> Inl (TypeError ''null'' name)
      | Some (JStr s) \<Rightarrow> Inr (f s)
      | Some _ \<Rightarrow> Inl (NotAFunction expr name))"

text \<open>\<open>xs.includes(v)\<close> for an array of strings, and \<open>v === s\<close> for a string.\<close>

definition js_includes :: "string list \<Rightarrow> jsval option \<Rightarrow> bool" where
  "js_includes xs v = (case v of Some (JStr s) \<Rightarrow> s \<in> set xs | _ \<Rightarrow> False)"

definition strict_eq :: "jsval option \<Rightarrow> string \<Rightarrow> bool" where
  "strict_eq v s = (v = Some (JStr s))"

text \<open>\<open>!regex.test(v)\<close>: the argument is converted to a string first.\<close>

definition test_fails :: "rx \<Rightarrow> jsval option \<Rightarrow> js_error + bool" where
  "test_fails regex v =
     (case v of
        None \<Rightarrow> Inr (\<not> rx_test regex ''undefined'')
      | Some x \<Rightarrow> and_then (to_string x) (\<lambda>s. Inr (\<not> rx_test regex s)))"

section \<open>Requests\<close>

text \<open>
  \<open>req.body\<close> with the fields the code reads, and \<open>upload\<close>, which is \<open>req.file\<close>: what
  the upload middleware stored, if a file was sent.
\<close>

record uploaded_file =
  mimetype :: string
  buffer :: string

record body =
  fullName :: "jsval option"
  email :: "jsval option"
  phone :: "jsval option"
  college :: "jsval option"
  branch :: "jsval option"
  year :: "jsval option"
  gender :: "jsval option"
  accommodation :: "jsval option"
  foodPreference :: "jsval option"
  ieeeStatus :: "jsval option"
  ieeeMembershipId :: "jsval option"
  ticketType :: "jsval option"
  agreeToTerms :: "jsval option"

record request =
  body :: body
  upload :: "uploaded_file option"

section \<open>Responses\<close>

text \<open>
  A response is its HTTP status and its JSON body: \<open>success\<close>, \<open>message\<close> when the body
  has one, and one of \<open>errors\<close>, \<open>error\<close> or \<open>data\<close>. \<open>safeData\<close> is a stored document
  without its \<open>transactionScreenshotDeleteUrl\<close>.
\<close>

record registered =
  r_ticketId :: string
  r_shortTicketId :: string
  r_email :: string

record safeData =
  s_ticketId :: string
  s_shortTicketId :: string
  s_fullName :: string
  s_email :: string
  s_phone :: string
  s_college :: string
  s_branch :: string
  s_year :: "jsval option"
  s_gender :: string
  s_accommodation :: "jsval option"
  s_foodPreference :: "jsval option"
  s_ieeeStatus :: "jsval option"
  s_ieeeMembershipId :: "string option"
  s_ticketType :: "jsval option"
  s_transactionScreenshotUrl :: string
  s_agreeToTerms :: bool
  s_status :: string
  s_createdAt :: nat
  s_updatedAt :: nat

datatype payload =
    Errors "string list"
  | Error string
  | Data registered
  | Found safeData
  | NoPayload

record http_response =
  http_status :: nat
  success :: bool
  message :: "string option"
  payload :: payload

section \<open>Validation middleware\<close>

text \<open>
  \<open>not_or v c\<close> is the condition \<open>!v || c\<close>: \<open>c\<close> is evaluated, and can throw, only when
  \<open>v\<close> is truthy.
\<close>

definition not_or :: "jsval option \<Rightarrow> js_error + bool \<Rightarrow> js_error + bool" where
  "not_or v c = (if truthy v then c else Inr True)"

text \<open>\<open>errors.push(m)\<close> under a condition.\<close>

definition push_if :: "bool \<Rightarrow> string \<Rightarrow> string list \<Rightarrow> string list" where
  "push_if c m errors = (if c then errors @ [m] else errors)"

text \<open>
  The body of the middleware is a sequence of statements \<open>if (condition) errors.push(message)\<close>.
  \<open>checks\<close> lists them in order, each condition with its message; \<open>run_checks\<close> executes
  them one after the other on the array built so far, and stops at the first condition
  that throws.
\<close>

definition checks :: "request \<Rightarrow> ((js_error + bool) \<times> string) list" where
  \<open>checks req =
     (let b = body req
      in [(not_or (body.fullName b)
             (call_string_method ''fullName'' (body.fullName b) ''trim'' (\<lambda>s. length (trim s) < 2)),
           ''Full name must be at least 2 characters long''),
          (not_or (body.email b) (test_fails emailRegex (body.email b)),
           ''Valid email address is required''),
          (not_or (body.phone b) (test_fails phoneRegex (body.phone b)),
           ''Phone number must be in format: +91XXXXXXXXXX''),
          (not_or (body.college b)
             (call_string_method ''college'' (body.college b) ''trim'' (\<lambda>s. length (trim s) < 2)),
           ''College name is required''),
          (not_or (body.branch b)
             (call_string_method ''branch'' (body.branch b) ''trim'' (\<lambda>s. length (trim s) < 2)),
           ''Branch is required''),
          (not_or (body.year b) (Inr (\<not> js_includes [''1'', ''2'', ''3'', ''4''] (body.year b))),
           ''Year must be 1, 2, 3, or 4''),
          (not_or (body.gender b)
             (call_string_method ''gender'' (body.gender b) ''toLowerCase''
                (\<lambda>s. toLowerCase s \<notin> set [''male'', ''female'', ''other''])),
           ''Gender must be "male", "female", or "other"''),
          (not_or (body.accommodation b)
             (Inr (\<not> js_includes [''yes'', ''no''] (body.accommodation b))),
           ''Accommodation must be "yes" or "no"''),
          (not_or (body.foodPreference b)
             (Inr (\<not> js_includes [''veg'', ''non-veg''] (body.foodPreference b))),
           ''Food preference must be "veg" or "non-veg"''),
          (not_or (body.ieeeStatus b)
             (Inr (\<not> js_includes [''member'', ''non-member''] (body.ieeeStatus b))),
           ''IEEE status must be "member" or "non-member"''),
          (if strict_eq (body.ieeeStatus b) ''member''
           then not_or (body.ieeeMembershipId b)
                  (call_string_method ''ieeeMembershipId'' (body.ieeeMembershipId b) ''trim''
                     (\<lambda>s. length (trim s) < 5))
           else Inr False,
           ''IEEE Membership ID is required for IEEE members''),
          (not_or (body.ticketType b)
             (Inr (\<not> js_includes [''ieee'', ''non-ieee''] (body.ticketType b))),
           ''Ticket type must be "ieee" or "non-ieee"''),
          (Inr (body.agreeToTerms b \<noteq> Some (JBool True) \<and>
                body.agreeToTerms b \<noteq> Some (JStr ''true'')),
           ''You must agree to the terms and conditions''),
          (Inr (upload req = None),
           ''Transaction screenshot is required'')])\<close>

fun run_checks :: "((js_error + bool) \<times> string) list \<Rightarrow> string list \<Rightarrow> js_error + string list" where
  "run_checks [] errors = Inr errors"
| "run_checks ((condition, m) # rest) errors =
     (case condition of
        Inl error \<Rightarrow> Inl error
      | Inr c \<Rightarrow> run_checks rest (push_if c m errors))"

definition validation_errors :: "request \<Rightarrow> js_error + string list" where
  "validation_errors req = run_checks (checks req) []"

text \<open>
  What a middleware does with a request: it answers, it calls \<open>next()\<close>, or it throws, and
  then the framework hands the error to the application's error handler.
\<close>

datatype middleware = Respond http_response | Next | Throw js_error

definition validateRegistration :: "request \<Rightarrow> middleware" where
  "validateRegistration req =
     (case validation_errors req of
        Inl error \<Rightarrow> Throw error
      | Inr errors \<Rightarrow>
          if length errors > 0
          then Respond \<lparr>http_status = 400, success = False, message = Some ''Validation failed'',
                        payload = Errors errors\<rparr>
          else Next)"

text \<open>The application's error handler.\<close>

definition error_handler :: "js_error \<Rightarrow> http_response" where
  "error_handler err =
     (case err of
        MulterError m \<Rightarrow>
          \<lparr>http_status = 400, success = False, message = Some ''File upload error'',
           payload = Error m\<rparr>
      | JsError c m \<Rightarrow>
          \<lparr>http_status = 500, success = False, message = Some ''Internal server error'',
           payload = Error m\<rparr>)"

section \<open>Ticket identifiers\<close>

text \<open>
  \<open>js_split sep s\<close> is \<open>s.split(sep)\<close> for a one-character separator: the segments
  between the separators, never an empty array.
\<close>

fun js_split :: "char \<Rightarrow> string \<Rightarrow> string list" where
  "js_split sep [] = [[]]"
| "js_split sep (c # cs) =
     (if c = sep then [] # js_split sep cs
      else (case js_split sep cs of
              [] \<Rightarrow> [[c]]
            | seg # segs \<Rightarrow> (c # seg) # segs))"

text \<open>Element 0 of an array, printed into a template literal (\<open>undefined\<close> when absent).\<close>

definition first_segment :: "string list \<Rightarrow> string" where
  "first_segment segs = (case segs of [] \<Rightarrow> ''undefined'' | seg # _ \<Rightarrow> seg)"

definition generateShortTicketId :: "string \<Rightarrow> string" where
  "generateShortTicketId uuid =
     (let shortId = first_segment (js_split CHR ''-'' uuid)
      in ''THM-'' @ shortId)"

text \<open>
  The identifier comes from the \<open>uuid\<close> package, which is not part of the repository. The
  textual form of a version-4 UUID: 36 characters, lower-case hexadecimal digits in groups
  of 8, 4, 4, 4 and 12 separated by hyphens, version digit 4, variant digit 8, 9, a or b.
\<close>

definition is_hex :: "char \<Rightarrow> bool" where
  "is_hex c = (c \<in> set ''0123456789abcdef'')"

definition is_uuid_v4 :: "string \<Rightarrow> bool" where
  "is_uuid_v4 u =
     (length u = 36 \<and>
      list_all is_hex (take 8 u) \<and> u ! 8 = CHR ''-'' \<and>
      list_all is_hex (take 4 (drop 9 u)) \<and> u ! 13 = CHR ''-'' \<and>
      u ! 14 = CHR ''4'' \<and> list_all is_hex (take 3 (drop 15 u)) \<and> u ! 18 = CHR ''-'' \<and>
      u ! 19 \<in> set ''89ab'' \<and> list_all is_hex (take 3 (drop 20 u)) \<and> u ! 23 = CHR ''-'' \<and>
      list_all is_hex (drop 24 u))"

section \<open>Image host\<close>

text \<open>
  What the HTTP client gives back for the upload request: a rejection with a message
  (network failure or a non-2xx status), or a response whose body may be missing, carries
  a \<open>success\<close> flag and, under \<open>data\<close>, the \<open>url\<close> and the \<open>delete_url\<close>.
\<close>

record imgbb_data =
  data_success :: bool
  data_data :: "(string \<times> string) option"

datatype imgbb_reply = AxiosError string | AxiosResponse "imgbb_data option"

record uploadResult =
  up_success :: bool
  url :: string
  deleteUrl :: string

definition imgbb_try :: "imgbb_reply \<Rightarrow> js_error + uploadResult" where
  "imgbb_try reply =
     (case reply of
        AxiosError m \<Rightarrow> Inl (JsError None m)
      | AxiosResponse None \<Rightarrow> Inl (JsError None ''ImgBB upload failed'')
      | AxiosResponse (Some d) \<Rightarrow>
          if data_success d
          then (case data_data d of
                  None \<Rightarrow> Inl (TypeError ''undefined'' ''url'')
                | Some (u, du) \<Rightarrow> Inr \<lparr>up_success = True, url = u, deleteUrl = du\<rparr>)
          else Inl (JsError None ''ImgBB upload failed''))"

text \<open>
  \<open>post imageBuffer imageName\<close> is the reply to the one request \<open>uploadToImgBB\<close> sends,
  carrying the image (base64-encoded on the wire) and its name.
\<close>

definition uploadToImgBB ::
  "(string \<Rightarrow> string \<Rightarrow> imgbb_reply) \<Rightarrow> string \<Rightarrow> string \<Rightarrow> js_error + uploadResult" where
  "uploadToImgBB post imageBuffer imageName =
     (case imgbb_try (post imageBuffer imageName) of
        Inl error \<Rightarrow> Inl (JsError None (''Failed to upload image to ImgBB: '' @ err_message error))
      | Inr r \<Rightarrow> Inr r)"

section \<open>Registration store\<close>

text \<open>
  A stored document. The fields the handler copies from the form without calling a method
  on them keep the form's type (\<open>None\<close> is \<open>undefined\<close>); \<open>ieeeMembershipId\<close> is a string
  or \<open>null\<close> (\<open>None\<close>). Times are milliseconds since the epoch.
\<close>

record registrationDoc =
  ticketId :: string
  shortTicketId :: string
  fullName :: string
  email :: string
  phone :: string
  college :: string
  branch :: string
  year :: "jsval option"
  gender :: string
  accommodation :: "jsval option"
  foodPreference :: "jsval option"
  ieeeStatus :: "jsval option"
  ieeeMembershipId :: "string option"
  ticketType :: "jsval option"
  transactionScreenshotUrl :: string
  transactionScreenshotDeleteUrl :: string
  agreeToTerms :: bool
  status :: string
  createdAt :: nat
  updatedAt :: nat

type_synonym store = "registrationDoc list"

text \<open>
  The collection is the list of its documents in insertion order. \<open>connectDB\<close> declares
  unique indexes on \<open>email\<close>, \<open>ticketId\<close> and \<open>shortTicketId\<close>: an insert that would
  repeat one of them is rejected with error code 11000. A query or an insert may also fail
  for a reason of the driver's own (\<open>fault\<close>).
\<close>

definition duplicate_key :: "store \<Rightarrow> registrationDoc \<Rightarrow> bool" where
  "duplicate_key st d =
     list_ex (\<lambda>r. registrationDoc.email r = registrationDoc.email d \<or>
                   ticketId r = ticketId d \<or> shortTicketId r = shortTicketId d) st"

definition findOne_email :: "js_error option \<Rightarrow> store \<Rightarrow> string \<Rightarrow> js_error + registrationDoc option" where
  "findOne_email fault st e =
     (case fault of
        Some err \<Rightarrow> Inl err
      | None \<Rightarrow> Inr (find (\<lambda>r. registrationDoc.email r = e) st))"

definition findOne_either :: "js_error option \<Rightarrow> store \<Rightarrow> string \<Rightarrow> js_error + registrationDoc option" where
  "findOne_either fault st i =
     (case fault of
        Some err \<Rightarrow> Inl err
      | None \<Rightarrow> Inr (find (\<lambda>r. ticketId r = i \<or> shortTicketId r = i) st))"

definition insertOne :: "js_error option \<Rightarrow> store \<Rightarrow> registrationDoc \<Rightarrow> js_error + store" where
  "insertOne fault st d =
     (case fault of
        Some err \<Rightarrow> Inl err
      | None \<Rightarrow>
          if duplicate_key st d
          then Inl (JsError (Some 11000) ''E11000 duplicate key error'')
          else Inr (st @ [d]))"

section \<open>Registration endpoint\<close>

text \<open>
  What the handler is given besides the request and the collection: the identifier that
  \<open>uuidv4()\<close> returns, the successive readings of the system clock (\<open>clock env k\<close> is
  the handler's reading number \<open>k\<close>, from 0), the image host's reply to an upload of an
  image under a name, and the faults of the store's driver.
\<close>

record env =
  uuidv4 :: string
  clock :: "nat \<Rightarrow> nat"
  imgbb :: "string \<Rightarrow> string \<Rightarrow> imgbb_reply"
  findOne_fault :: "js_error option"
  insertOne_fault :: "js_error option"

text \<open>The calls that leave the process, in the order they are made.\<close>

datatype call =
    FindOne string
  | Uuidv4
  | Upload string string
  | InsertOne registrationDoc

text \<open>
  The result of handling one request: the response, the collection afterwards, the calls
  made, and the documents handed to \<open>appendToGoogleSheets\<close>, whose callback
  \<open>setImmediate\<close> runs after the handler has returned.
\<close>

record outcome =
  response :: http_response
  store_after :: store
  calls :: "call list"
  scheduled :: "registrationDoc list"

text \<open>The object literal \<open>registrationDoc\<close>; its fields are evaluated in order.\<close>

definition registrationDoc_of ::
  "body \<Rightarrow> string \<Rightarrow> string \<Rightarrow> uploadResult \<Rightarrow> nat \<Rightarrow> nat \<Rightarrow> js_error + registrationDoc" where
  "registrationDoc_of b fullTicketId shortId uploadResult now1 now2 =
     and_then (call_string_method ''fullName'' (body.fullName b) ''trim'' trim) (\<lambda>fullName'.
     and_then (call_string_method ''email'' (body.email b) ''toLowerCase''
                 (\<lambda>s. trim (toLowerCase s))) (\<lambda>email'.
     and_then (call_string_method ''phone'' (body.phone b) ''trim'' trim) (\<lambda>phone'.
     and_then (call_string_method ''college'' (body.college b) ''trim'' trim) (\<lambda>college'.
     and_then (call_string_method ''branch'' (body.branch b) ''trim'' trim) (\<lambda>branch'.
     and_then (call_string_method ''gender'' (body.gender b) ''toLowerCase''
                 (\<lambda>s. trim (toLowerCase s))) (\<lambda>gender'.
     and_then (if strict_eq (body.ieeeStatus b) ''member''
          then call_string_method ''ieeeMembershipId'' (body.ieeeMembershipId b) ''trim''
                 (\<lambda>s. Some (trim s))
          else Inr None) (\<lambda>ieeeMembershipId'.
     Inr \<lparr>ticketId = fullTicketId,
          shortTicketId = shortId,
          fullName = fullName',
          email = email',
          phone = phone',
          college = college',
          branch = branch',
          year = body.year b,
          gender = gender',
          accommodation = body.accommodation b,
          foodPreference = body.foodPreference b,
          ieeeStatus = body.ieeeStatus b,
          ieeeMembershipId = ieeeMembershipId',
          ticketType = body.ticketType b,
          transactionScreenshotUrl = url uploadResult,
          transactionScreenshotDeleteUrl = deleteUrl uploadResult,
          agreeToTerms = (body.agreeToTerms b = Some (JBool True) \<or>
                          body.agreeToTerms b = Some (JStr ''true'')),
          status = ''pending'',
          createdAt = now1,
          updatedAt = now2\<rparr>)))))))"

text \<open>The handler's \<open>catch\<close> block.\<close>

definition catch_block :: "js_error \<Rightarrow> http_response" where
  "catch_block error =
     (if code error = Some 11000
      then \<lparr>http_status = 400, success = False, message = Some ''Registration already exists'',
             payload = Error ''This email or ticket ID already exists in the system''\<rparr>
      else \<lparr>http_status = 500, success = False, message = Some ''Registration failed'',
             payload = Error (err_message error)\<rparr>)"

definition caught :: "js_error \<Rightarrow> store \<Rightarrow> call list \<Rightarrow> outcome" where
  "caught error st cs =
     \<lparr>response = catch_block error, store_after = st, calls = cs, scheduled = []\<rparr>"

definition register_handler :: "env \<Rightarrow> store \<Rightarrow> request \<Rightarrow> outcome" where
  "register_handler env st req =
     (let b = body req;
          registrationStartTime = clock env 0
      in case call_string_method ''email'' (body.email b) ''toLowerCase'' toLowerCase of
           Inl error \<Rightarrow> caught error st []
         | Inr key \<Rightarrow>
        (let cs = [FindOne key]
         in case findOne_email (findOne_fault env) st key of
              Inl error \<Rightarrow> caught error st cs
            | Inr (Some existingRegistration) \<Rightarrow>
                \<lparr>response =
                   \<lparr>http_status = 400, success = False,
                    message = Some ''Email already registered'',
                    payload = Error ''This email address has already been used for registration''\<rparr>,
                 store_after = st, calls = cs, scheduled = []\<rparr>
            | Inr None \<Rightarrow>
        (let fullTicketId = uuidv4 env;
             shortId = generateShortTicketId fullTicketId;
             cs = cs @ [Uuidv4]
         in case upload req of
              None \<Rightarrow> caught (TypeError ''undefined'' ''buffer'') st cs
            | Some f \<Rightarrow>
        (let name = ''transaction_'' @ shortId @ ''_'' @ decimal (clock env 1);
             cs = cs @ [Upload (buffer f) name]
         in case uploadToImgBB (imgbb env) (buffer f) name of
              Inl error \<Rightarrow> caught error st cs
            | Inr uploadResult \<Rightarrow>
                if \<not> up_success uploadResult
                then caught (JsError None ''Failed to upload transaction screenshot'') st cs
                else
        (case registrationDoc_of b fullTicketId shortId uploadResult (clock env 2) (clock env 3) of
           Inl error \<Rightarrow> caught error st cs
         | Inr doc \<Rightarrow>
        (let cs = cs @ [InsertOne doc]
         in case insertOne (insertOne_fault env) st doc of
              Inl error \<Rightarrow> caught error st cs
            | Inr st' \<Rightarrow>
                (let processingTime = int (clock env 4) - int registrationStartTime
                 in \<lparr>response =
                       \<lparr>http_status = 201, success = True,
                        message = Some ''Registration successful'',
                        payload = Data \<lparr>r_ticketId = fullTicketId, r_shortTicketId = shortId,
                                        r_email = trim key\<rparr>\<rparr>,
                     store_after = st', calls = cs, scheduled = [doc]\<rparr>)))))))"

text \<open>
  The route: the validation middleware, then the handler; an error thrown by the middleware
  goes to the error handler. The rate limiter and the upload middleware run before both;
  the request here is one they let through.
\<close>

definition register_endpoint :: "env \<Rightarrow> store \<Rightarrow> request \<Rightarrow> outcome" where
  "register_endpoint env st req =
     (case validateRegistration req of
        Respond res \<Rightarrow> \<lparr>response = res, store_after = st, calls = [], scheduled = []\<rparr>
      | Throw err \<Rightarrow>
          \<lparr>response = error_handler err, store_after = st, calls = [], scheduled = []\<rparr>
      | Next \<Rightarrow> register_handler env st req)"

section \<open>Lookup endpoint\<close>

text \<open>The rest pattern \<open>{ transactionScreenshotDeleteUrl, ...safeData }\<close>.\<close>

definition safeData_of :: "registrationDoc \<Rightarrow> safeData" where
  "safeData_of registration =
     \<lparr>s_ticketId = ticketId registration,
      s_shortTicketId = shortTicketId registration,
      s_fullName = registrationDoc.fullName registration,
      s_email = registrationDoc.email registration,
      s_phone = registrationDoc.phone registration,
      s_college = registrationDoc.college registration,
      s_branch = registrationDoc.branch registration,
      s_year = registrationDoc.year registration,
      s_gender = registrationDoc.gender registration,
      s_accommodation = registrationDoc.accommodation registration,
      s_foodPreference = registrationDoc.foodPreference registration,
      s_ieeeStatus = registrationDoc.ieeeStatus registration,
      s_ieeeMembershipId = registrationDoc.ieeeMembershipId registration,
      s_ticketType = registrationDoc.ticketType registration,
      s_transactionScreenshotUrl = transactionScreenshotUrl registration,
      s_agreeToTerms = registrationDoc.agreeToTerms registration,
      s_status = status registration,
      s_createdAt = createdAt registration,
      s_updatedAt = updatedAt registration\<rparr>"

definition lookup_endpoint :: "js_error option \<Rightarrow> store \<Rightarrow> string \<Rightarrow> http_response" where
  "lookup_endpoint fault st ticketId' =
     (case findOne_either fault st ticketId' of
        Inl error \<Rightarrow>
          \<lparr>http_status = 500, success = False, message = Some ''Failed to fetch registration'',
           payload = Error (err_message error)\<rparr>
      | Inr None \<Rightarrow>
          \<lparr>http_status = 404, success = False, message = Some ''Registration not found'',
           payload = NoPayload\<rparr>
      | Inr (Some registration) \<Rightarrow>
          \<lparr>http_status = 200, success = True, message = None,
           payload = Found (safeData_of registration)\<rparr>)"

section \<open>Sheet mirror\<close>

text \<open>
  The configuration and the sink: whether the Sheets client was initialised, the two
  environment variables, the rejection of the append request if the sink refuses it, and
  \<open>Date.prototype.toISOString\<close>, which belongs to the language and is a parameter here.
\<close>

record sheets_env =
  sheets :: bool
  GOOGLE_SHEET_ID :: "string option"
  GOOGLE_SHEET_RANGE :: "string option"
  append_fault :: "js_error option"
  toISOString :: "nat \<Rightarrow> string"

text \<open>A cell of the row is a value of the document, \<open>undefined\<close> (\<open>None\<close>) where it has none.\<close>

type_synonym cell = "jsval option"

record append_request =
  spreadsheetId :: string
  sheet_range :: string
  row_values :: "cell list list"

record mirror_effects =
  appended :: "append_request list"
  logged :: "string list"

text \<open>\<open>v || d\<close> on a string, \<open>null\<close> or \<open>undefined\<close>.\<close>

definition or_default :: "string option \<Rightarrow> string \<Rightarrow> string" where
  "or_default v d = (case v of None \<Rightarrow> d | Some s \<Rightarrow> if s = [] then d else s)"

definition sheet_row :: "(nat \<Rightarrow> string) \<Rightarrow> registrationDoc \<Rightarrow> cell list" where
  "sheet_row isoString registrationData =
     [Some (JStr (ticketId registrationData)),
      Some (JStr (shortTicketId registrationData)),
      Some (JStr (registrationDoc.fullName registrationData)),
      Some (JStr (registrationDoc.email registrationData)),
      Some (JStr (registrationDoc.phone registrationData)),
      Some (JStr (registrationDoc.college registrationData)),
      Some (JStr (registrationDoc.branch registrationData)),
      registrationDoc.year registrationData,
      Some (JStr (registrationDoc.gender registrationData)),
      registrationDoc.accommodation registrationData,
      registrationDoc.foodPreference registrationData,
      registrationDoc.ieeeStatus registrationData,
      Some (JStr (or_default (registrationDoc.ieeeMembershipId registrationData) [])),
      registrationDoc.ticketType registrationData,
      Some (JStr (transactionScreenshotUrl registrationData)),
      Some (JStr (status registrationData)),
      Some (JStr (isoString (createdAt registrationData)))]"

text \<open>
  The body of the \<open>try\<close> block of the callback. The console lines are kept without the
  pictograph that starts each of them.
\<close>

definition mirror_try :: "sheets_env \<Rightarrow> registrationDoc \<Rightarrow> js_error + mirror_effects" where
  "mirror_try senv registrationData =
     (if \<not> sheets senv \<or> or_default (GOOGLE_SHEET_ID senv) [] = []
      then Inr \<lparr>appended = [], logged = [''Skipping Google Sheets sync (not configured)'']\<rparr>
      else
        (let row = sheet_row (toISOString senv) registrationData
         in case append_fault senv of
              Some error \<Rightarrow> Inl error
            | None \<Rightarrow>
                Inr \<lparr>appended =
                       [\<lparr>spreadsheetId = or_default (GOOGLE_SHEET_ID senv) [],
                         sheet_range = or_default (GOOGLE_SHEET_RANGE senv) ''Sheet1!A:Q'',
                         row_values = [row]\<rparr>],
                     logged = [''Successfully synced to Google Sheets: '' @
                                 shortTicketId registrationData]\<rparr>))"

text \<open>
  The callback that \<open>appendToGoogleSheets\<close> hands to \<open>setImmediate\<close>: the \<open>try\<close> block
  and its \<open>catch\<close>. \<open>Inl\<close> would be an error escaping the callback.
\<close>

definition appendToGoogleSheets :: "sheets_env \<Rightarrow> registrationDoc \<Rightarrow> js_error + mirror_effects" where
  "appendToGoogleSheets senv registrationData =
     (case mirror_try senv registrationData of
        Inl error \<Rightarrow>
          Inr \<lparr>appended = [],
               logged = [''Failed to sync to Google Sheets for '' @
                           shortTicketId registrationData @ '': '' @ err_message error]\<rparr>
      | Inr effects \<Rightarrow> Inr effects)"

text \<open>
  One registration request served to the end: the route answers, then the event loop runs
  the callbacks that were scheduled. \<open>uncaught\<close> collects the errors that escape them.
\<close>

record served =
  answered :: outcome
  mirrored :: "mirror_effects list"
  uncaught :: "js_error list"

definition serve_register :: "env \<Rightarrow> sheets_env \<Rightarrow> store \<Rightarrow> request \<Rightarrow> served" where
  "serve_register env senv st req =
     (let out = register_endpoint env st req;
          ran = map (appendToGoogleSheets senv) (scheduled out)
      in \<lparr>answered = out,
          mirrored = concat (map (\<lambda>r. case r of Inl error \<Rightarrow> [] | Inr effects \<Rightarrow> [effects]) ran),
          uncaught = concat (map (\<lambda>r. case r of Inl error \<Rightarrow> [error] | Inr effects \<Rightarrow> []) ran)\<rparr>)"

section \<open>The validation rules as the specification words them\<close>

datatype rule =
    R_fullName | R_email | R_phone | R_college | R_branch | R_year | R_gender
  | R_accommodation | R_foodPreference | R_ieeeStatus | R_ieeeMembershipId
  | R_ticketType | R_agreeToTerms | R_file

definition all_rules :: "rule list" where
  "all_rules = [R_fullName, R_email, R_phone, R_college, R_branch, R_year, R_gender,
     R_accommodation, R_foodPreference, R_ieeeStatus, R_ieeeMembershipId,
     R_ticketType, R_agreeToTerms, R_file]"

definition email_shape :: "string \<Rightarrow> bool" where
  "email_shape s =
     (\<exists>local domain tld. s = local @ ''@'' @ domain @ ''.'' @ tld \<and>
        local \<noteq> [] \<and> domain \<noteq> [] \<and> tld \<noteq> [] \<and>
        (\<forall>c \<in> set (local @ domain @ tld). \<not> is_js_space c \<and> c \<noteq> CHR ''@''))"

definition phone_shape :: "string \<Rightarrow> bool" where
  "phone_shape s =
     (case s of
        p # n # i # d # ds \<Rightarrow>
          [p, n, i] = ''+91'' \<and> d \<in> set ''6789'' \<and> length ds = 9 \<and>
          (\<forall>c \<in> set ds. c \<in> set ''0123456789'')
      | _ \<Rightarrow> False)"

text \<open>A rule on a string is violated by a field that is absent or not a string.\<close>

definition the_string :: "jsval option \<Rightarrow> (string \<Rightarrow> bool) \<Rightarrow> bool" where
  "the_string v p = (case v of Some (JStr s) \<Rightarrow> p s | _ \<Rightarrow> False)"

definition trimmed_at_least :: "nat \<Rightarrow> jsval option \<Rightarrow> bool" where
  "trimmed_at_least n v = the_string v (\<lambda>s. n \<le> length (trim s))"

definition one_of :: "string list \<Rightarrow> jsval option \<Rightarrow> bool" where
  "one_of xs v = the_string v (\<lambda>s. s \<in> set xs)"

definition one_of_ignoring_case :: "string list \<Rightarrow> jsval option \<Rightarrow> bool" where
  "one_of_ignoring_case xs v = the_string v (\<lambda>s. \<exists>x \<in> set xs. toLowerCase s = toLowerCase x)"

fun satisfied :: "rule \<Rightarrow> request \<Rightarrow> bool" where
  "satisfied R_fullName req = trimmed_at_least 2 (body.fullName (body req))"
| "satisfied R_email req = the_string (body.email (body req)) email_shape"
| "satisfied R_phone req = the_string (body.phone (body req)) phone_shape"
| "satisfied R_college req = trimmed_at_least 2 (body.college (body req))"
| "satisfied R_branch req = trimmed_at_least 2 (body.branch (body req))"
| "satisfied R_year req = one_of [''1'', ''2'', ''3'', ''4''] (body.year (body req))"
| "satisfied R_gender req =
     one_of_ignoring_case [''male'', ''female'', ''other''] (body.gender (body req))"
| "satisfied R_accommodation req = one_of [''yes'', ''no''] (body.accommodation (body req))"
| "satisfied R_foodPreference req = one_of [''veg'', ''non-veg''] (body.foodPreference (body req))"
| "satisfied R_ieeeStatus req = one_of [''member'', ''non-member''] (body.ieeeStatus (body req))"
| "satisfied R_ieeeMembershipId req =
     (body.ieeeStatus (body req) = Some (JStr ''member'') \<longrightarrow>
        trimmed_at_least 5 (body.ieeeMembershipId (body req)))"
| "satisfied R_ticketType req = one_of [''ieee'', ''non-ieee''] (body.ticketType (body req))"
| "satisfied R_agreeToTerms req =
     (body.agreeToTerms (body req) = Some (JBool True) \<or>
      body.agreeToTerms (body req) = Some (JStr ''true''))"
| "satisfied R_file req = (upload req \<noteq> None)"

fun rule_message :: "rule \<Rightarrow> string" where
  "rule_message R_fullName = ''Full name must be at least 2 characters long''"
| "rule_message R_email = ''Valid email address is required''"
| "rule_message R_phone = ''Phone number must be in format: +91XXXXXXXXXX''"
| "rule_message R_college = ''College name is required''"
| "rule_message R_branch = ''Branch is required''"
| "rule_message R_year = ''Year must be 1, 2, 3, or 4''"
| \<open>rule_message R_gender = ''Gender must be "male", "female", or "other"''\<close>
| \<open>rule_message R_accommodation = ''Accommodation must be "yes" or "no"''\<close>
| \<open>rule_message R_foodPreference = ''Food preference must be "veg" or "non-veg"''\<close>
| \<open>rule_message R_ieeeStatus = ''IEEE status must be "member" or "non-member"''\<close>
| "rule_message R_ieeeMembershipId = ''IEEE Membership ID is required for IEEE members''"
| \<open>rule_message R_ticketType = ''Ticket type must be "ieee" or "non-ieee"''\<close>
| "rule_message R_agreeToTerms = ''You must agree to the terms and conditions''"
| "rule_message R_file = ''Transaction screenshot is required''"

text \<open>
  The forms on which the validator stays within strings: the fields it calls a string
  method on or matches against a pattern are strings or absent (the membership
  identifier is looked at only for a member). The other fields may hold anything.
\<close>

definition string_or_absent :: "jsval option \<Rightarrow> bool" where
  "string_or_absent v = (case v of None \<Rightarrow> True | Some (JStr s) \<Rightarrow> True | _ \<Rightarrow> False)"

definition text_fields_are_strings :: "request \<Rightarrow> bool" where
  "text_fields_are_strings req =
     (let b = body req
      in string_or_absent (body.fullName b) \<and> string_or_absent (body.email b) \<and>
         string_or_absent (body.phone b) \<and> string_or_absent (body.college b) \<and>
         string_or_absent (body.branch b) \<and> string_or_absent (body.gender b) \<and>
         (body.ieeeStatus b = Some (JStr ''member'') \<longrightarrow>
            string_or_absent (body.ieeeMembershipId b)))"


section \<open>Well-formed collections\<close>

text \<open>
  What the unique indexes and the handler maintain: no two documents share a
  \<open>ticketId\<close> or a \<open>shortTicketId\<close>, every \<open>ticketId\<close> is a version-4 UUID and every
  \<open>shortTicketId\<close> is derived from the \<open>ticketId\<close> of its document.
\<close>

definition store_ok :: "store \<Rightarrow> bool" where
  "store_ok st =
     (distinct (map ticketId st) \<and> distinct (map shortTicketId st) \<and>
      list_all (\<lambda>r. is_uuid_v4 (ticketId r) \<and>
                    shortTicketId r = generateShortTicketId (ticketId r)) st)"

text \<open>Putting the delete handle back into a document the lookup endpoint returned.\<close>

definition with_deleteUrl :: "safeData \<Rightarrow> string \<Rightarrow> registrationDoc" where
  "with_deleteUrl d u =
     \<lparr>ticketId = s_ticketId d,
      shortTicketId = s_shortTicketId d,
      fullName = s_fullName d,
      email = s_email d,
      phone = s_phone d,
      college = s_college d,
      branch = s_branch d,
      year = s_year d,
      gender = s_gender d,
      accommodation = s_accommodation d,
      foodPreference = s_foodPreference d,
      ieeeStatus = s_ieeeStatus d,
      ieeeMembershipId = s_ieeeMembershipId d,
      ticketType = s_ticketType d,
      transactionScreenshotUrl = s_transactionScreenshotUrl d,
      transactionScreenshotDeleteUrl = u,
      agreeToTerms = s_agreeToTerms d,
      status = s_status d,
      createdAt = s_createdAt d,
      updatedAt = s_updatedAt d\<rparr>"

section \<open>Example requests\<close>

text \<open>The scenario of the specification: a complete form, and the same with a phone number
  whose first digit is 5.\<close>

definition jane :: request where
  "jane =
     \<lparr>body =
        \<lparr>body.fullName = Some (JStr ''Jane Doe''), email = Some (JStr ''Jane@X.com''),
         phone = Some (JStr ''+919876543210''), college = Some (JStr ''ABC''),
         branch = Some (JStr ''CS''), year = Some (JStr ''2''), gender = Some (JStr ''female''),
         accommodation = Some (JStr ''no''), foodPreference = Some (JStr ''veg''),
         ieeeStatus = Some (JStr ''non-member''), ieeeMembershipId = None,
         ticketType = Some (JStr ''non-ieee''), agreeToTerms = Some (JStr ''true'')\<rparr>,
      upload = Some \<lparr>mimetype = ''image/jpeg'', buffer = ''JFIF''\<rparr>\<rparr>"

definition jane_bad_phone :: request where
  "jane_bad_phone = jane\<lparr>body := (body jane)\<lparr>body.phone := Some (JStr ''+915876543210'')\<rparr>\<rparr>"

text \<open>
  An environment in which everything answers, one in which the image host refuses the
  connection, and the document that registering the complete form under the first one
  builds. The clock advances by one millisecond at every reading.
\<close>

definition env0 :: env where
  "env0 =
     \<lparr>uuidv4 = ''550e8400-e29b-41d4-a716-446655440000'',
      clock = (\<lambda>k. 1000 + k),
      imgbb = (\<lambda>image name. AxiosResponse (Some \<lparr>data_success = True,
                data_data = Some (''https://i.ibb.co/x.jpg'', ''https://ibb.co/x/del'')\<rparr>)),
      findOne_fault = None,
      insertOne_fault = None\<rparr>"

definition env_host_down :: env where
  "env_host_down = env0\<lparr>imgbb := (\<lambda>image name. AxiosError ''connect ECONNREFUSED'')\<rparr>"

definition jane_doc :: registrationDoc where
  "jane_doc =
     \<lparr>ticketId = ''550e8400-e29b-41d4-a716-446655440000'',
      shortTicketId = ''THM-550e8400'',
      fullName = ''Jane Doe'',
      email = ''jane@x.com'',
      phone = ''+919876543210'',
      college = ''ABC'',
      branch = ''CS'',
      year = Some (JStr ''2''),
      gender = ''female'',
      accommodation = Some (JStr ''no''),
      foodPreference = Some (JStr ''veg''),
      ieeeStatus = Some (JStr ''non-member''),
      ieeeMembershipId = None,
      ticketType = Some (JStr ''non-ieee''),
      transactionScreenshotUrl = ''https://i.ibb.co/x.jpg'',
      transactionScreenshotDeleteUrl = ''https://ibb.co/x/del'',
      agreeToTerms = True,
      status = ''pending'',
      createdAt = 1002,
      updatedAt = 1003\<rparr>"

text \<open>
  A member's form, and sheet configurations: none, a sink that refuses, and one that
  accepts. \<open>iso_first_seconds\<close> is \<open>toISOString\<close> on the first ten seconds of the epoch,
  where the example clock reads.
\<close>

definition jane_member :: request where
  "jane_member =
     jane\<lparr>body := (body jane)\<lparr>body.ieeeStatus := Some (JStr ''member''),
                                  body.ieeeMembershipId := Some (JStr '' 12345678 ''),
                                  body.ticketType := Some (JStr ''ieee'')\<rparr>\<rparr>"

definition iso_first_seconds :: "nat \<Rightarrow> string" where
  "iso_first_seconds t =
     ''1970-01-01T00:00:0'' @ decimal (t div 1000) @ ''.'' @ decimal (t mod 1000 div 100) @
       decimal (t mod 100 div 10) @ decimal (t mod 10) @ ''Z''"

definition sheets_unconfigured :: sheets_env where
  "sheets_unconfigured =
     \<lparr>sheets = False, GOOGLE_SHEET_ID = None, GOOGLE_SHEET_RANGE = None,
      append_fault = None, toISOString = iso_first_seconds\<rparr>"

definition sheets_refusing :: sheets_env where
  "sheets_refusing =
     \<lparr>sheets = True, GOOGLE_SHEET_ID = Some ''sheet-1'', GOOGLE_SHEET_RANGE = None,
      append_fault = Some (JsError (Some 403) ''The caller does not have permission''),
      toISOString = iso_first_seconds\<rparr>"

definition sheets_accepting :: sheets_env where
  "sheets_accepting = sheets_refusing\<lparr>append_fault := None\<rparr>"

definition jane_member_doc :: registrationDoc where
  "jane_member_doc =
     jane_doc\<lparr>registrationDoc.ieeeStatus := Some (JStr ''member''),
               registrationDoc.ieeeMembershipId := Some ''12345678'',
               registrationDoc.ticketType := Some (JStr ''ieee'')\<rparr>"

text \<open>
  Forms a client can send that hold something else than a string: the complete form with
  its address in a part named \<open>email[]\<close>, which arrives as a one-element array, and the
  form with the bad phone number and the \<open>fullName\<close> part sent twice, which arrives as an
  array of both.
\<close>

definition jane_email_array :: request where
  "jane_email_array =
     jane\<lparr>body := (body jane)\<lparr>body.email := Some (JArr [JStr ''Jane@X.com''])\<rparr>\<rparr>"

definition jane_name_twice :: request where
  "jane_name_twice =
     jane_bad_phone\<lparr>body := (body jane_bad_phone)
       \<lparr>body.fullName := Some (JArr [JStr ''Jane'', JStr ''Doe''])\<rparr>\<rparr>"

section \<open>The matcher decides the language\<close>

lemma nullable_lang: "nullable r \<longleftrightarrow> [] \<in> lang r"
  by (induction r) (auto intro: star.star_nil)

lemma star_cons_split:
  assumes "w \<in> star L" and "w = c # x"
  shows "\<exists>u v. x = u @ v \<and> c # u \<in> L \<and> v \<in> star L"
  using assms
proof (induction arbitrary: x rule: star.induct)
  case star_nil
  then show ?case by simp
next
  case (star_app u v)
  show ?case
  proof (cases u)
    case Nil
    with star_app show ?thesis by simp
  next
    case (Cons a u')
    with star_app.prems have "a = c" and "x = u' @ v" by simp_all
    with Cons star_app.hyps show ?thesis by blast
  qed
qed

lemma star_cons: "c # x \<in> star L \<longleftrightarrow> (\<exists>u v. x = u @ v \<and> c # u \<in> L \<and> v \<in> star L)"
proof
  assume "c # x \<in> star L"
  then show "\<exists>u v. x = u @ v \<and> c # u \<in> L \<and> v \<in> star L"
    by (rule star_cons_split) simp
next
  assume "\<exists>u v. x = u @ v \<and> c # u \<in> L \<and> v \<in> star L"
  then obtain u v where "x = u @ v" "c # u \<in> L" "v \<in> star L" by blast
  then have "(c # u) @ v \<in> star L" by (intro star.star_app)
  with \<open>x = u @ v\<close> show "c # x \<in> star L" by simp
qed

lemma deriv_lang: "w \<in> lang (deriv c r) \<longleftrightarrow> c # w \<in> lang r"
proof (induction r arbitrary: w)
  case Zero
  show ?case by simp
next
  case One
  show ?case by simp
next
  case (Atom p)
  show ?case by auto
next
  case (Alt r s)
  then show ?case by simp
next
  case (Seq r s)
  show ?case
  proof
    assume "w \<in> lang (deriv c (Seq r s))"
    then consider (l) u v where "w = u @ v" "u \<in> lang (deriv c r)" "v \<in> lang s"
      | (r) "nullable r" "w \<in> lang (deriv c s)"
      by (auto split: if_splits)
    then show "c # w \<in> lang (Seq r s)"
    proof cases
      case l
      then have "c # u \<in> lang r" using Seq.IH(1) by simp
      with l have "\<exists>a b. c # w = a @ b \<and> a \<in> lang r \<and> b \<in> lang s"
        by (intro exI[of _ "c # u"] exI[of _ v]) simp
      then show ?thesis by simp
    next
      case r
      then have "[] \<in> lang r" "c # w \<in> lang s" using Seq.IH(2) nullable_lang by simp_all
      then have "\<exists>a b. c # w = a @ b \<and> a \<in> lang r \<and> b \<in> lang s"
        by (intro exI[of _ "[]"] exI[of _ "c # w"]) simp
      then show ?thesis by simp
    qed
  next
    assume "c # w \<in> lang (Seq r s)"
    then obtain u v where uv: "c # w = u @ v" "u \<in> lang r" "v \<in> lang s" by auto
    show "w \<in> lang (deriv c (Seq r s))"
    proof (cases u)
      case Nil
      with uv have "nullable r" "w \<in> lang (deriv c s)"
        using Seq.IH(2) nullable_lang by simp_all
      then show ?thesis by simp
    next
      case (Cons a u')
      with uv have "w = u' @ v" "u' \<in> lang (deriv c r)" using Seq.IH(1) by simp_all
      with uv show ?thesis by auto
    qed
  qed
next
  case (Star r)
  have "w \<in> lang (deriv c (Star r)) \<longleftrightarrow>
          (\<exists>u v. w = u @ v \<and> u \<in> lang (deriv c r) \<and> v \<in> star (lang r))"
    by auto
  also have "\<dots> \<longleftrightarrow> (\<exists>u v. w = u @ v \<and> c # u \<in> lang r \<and> v \<in> star (lang r))"
    using Star.IH by simp
  also have "\<dots> \<longleftrightarrow> c # w \<in> star (lang r)"
    by (rule star_cons[symmetric])
  finally show ?case by simp
qed

lemma rx_test_lang: "rx_test r w \<longleftrightarrow> w \<in> lang r"
  by (induction w arbitrary: r) (simp_all add: nullable_lang deriv_lang)

lemma star_atom: "w \<in> star (lang (Atom p)) \<longleftrightarrow> list_all p w"
proof
  assume "w \<in> star (lang (Atom p))"
  then show "list_all p w" by (induction rule: star.induct) auto
next
  assume "list_all p w"
  then show "w \<in> star (lang (Atom p))"
  proof (induction w)
    case Nil
    show ?case by (rule star.star_nil)
  next
    case (Cons a w)
    then have "[a] \<in> lang (Atom p)" "w \<in> star (lang (Atom p))" by simp_all
    then have "[a] @ w \<in> star (lang (Atom p))" by (rule star.star_app)
    then show ?case by simp
  qed
qed

lemma lang_Seq_Atom: "w \<in> lang (Seq (Atom p) r) \<longleftrightarrow> (\<exists>c v. w = c # v \<and> p c \<and> v \<in> lang r)"
proof
  assume "w \<in> lang (Seq (Atom p) r)"
  then obtain u v where "w = u @ v" "u \<in> lang (Atom p)" "v \<in> lang r" by auto
  moreover from this obtain c where "u = [c]" "p c" by auto
  ultimately show "\<exists>c v. w = c # v \<and> p c \<and> v \<in> lang r" by simp
next
  assume "\<exists>c v. w = c # v \<and> p c \<and> v \<in> lang r"
  then obtain c v where "w = c # v" "p c" "v \<in> lang r" by blast
  then have "w = [c] @ v \<and> [c] \<in> lang (Atom p) \<and> v \<in> lang r" by simp
  then show "w \<in> lang (Seq (Atom p) r)" unfolding lang.simps by blast
qed

lemma lang_Plus_Atom: "w \<in> lang (Plus (Atom p)) \<longleftrightarrow> w \<noteq> [] \<and> list_all p w"
proof -
  have "w \<in> lang (Plus (Atom p)) \<longleftrightarrow> (\<exists>c v. w = c # v \<and> p c \<and> list_all p v)"
    unfolding Plus_def lang_Seq_Atom by (simp only: lang.simps(6) star_atom)
  also have "\<dots> \<longleftrightarrow> w \<noteq> [] \<and> list_all p w"
    by (cases w) simp_all
  finally show ?thesis .
qed

lemma lang_Times_Atom: "w \<in> lang (Times n (Atom p)) \<longleftrightarrow> length w = n \<and> list_all p w"
proof (induction n arbitrary: w)
  case 0
  show ?case by auto
next
  case (Suc n)
  have "w \<in> lang (Times (Suc n) (Atom p)) \<longleftrightarrow> (\<exists>c v. w = c # v \<and> p c \<and> v \<in> lang (Times n (Atom p)))"
    unfolding Times.simps lang_Seq_Atom ..
  also have "\<dots> \<longleftrightarrow> (\<exists>c v. w = c # v \<and> p c \<and> length v = n \<and> list_all p v)"
    unfolding Suc.IH ..
  also have "\<dots> \<longleftrightarrow> length w = Suc n \<and> list_all p w"
    by (cases w) auto
  finally show ?case .
qed


lemma emailRegex_shape:
  "rx_test emailRegex s \<longleftrightarrow>
     (\<exists>l d t. s = l @ ''@'' @ d @ ''.'' @ t \<and> l \<noteq> [] \<and> d \<noteq> [] \<and> t \<noteq> [] \<and>
        list_all not_space_at l \<and> list_all not_space_at d \<and> list_all not_space_at t)"
proof -
  let ?P = "Plus (Atom not_space_at)"
  have tail: "w \<in> lang (Seq (Lit c) r) \<longleftrightarrow> (\<exists>v. w = c # v \<and> v \<in> lang r)" for w c r
    unfolding Lit_def lang_Seq_Atom by blast
  have "rx_test emailRegex s \<longleftrightarrow>
          (\<exists>l x. s = l @ x \<and> l \<in> lang ?P \<and>
             (\<exists>y. x = CHR ''@'' # y \<and>
                (\<exists>d z. y = d @ z \<and> d \<in> lang ?P \<and>
                   (\<exists>t. z = CHR ''.'' # t \<and> t \<in> lang ?P))))"
    unfolding rx_test_lang emailRegex_def
    by (simp only: lang.simps(5)[of ?P] tail) blast
  also have "\<dots> \<longleftrightarrow> (\<exists>l d t. s = l @ ''@'' @ d @ ''.'' @ t \<and> l \<in> lang ?P \<and> d \<in> lang ?P \<and> t \<in> lang ?P)"
    (is "?L \<longleftrightarrow> ?R")
  proof
    assume ?L
    then show ?R by auto
  next
    assume ?R
    then obtain l d t where *: "s = l @ ''@'' @ d @ ''.'' @ t" "l \<in> lang ?P" "d \<in> lang ?P" "t \<in> lang ?P"
      by blast
    have "\<exists>d' z. d @ ''.'' @ t = d' @ z \<and> d' \<in> lang ?P \<and> (\<exists>t'. z = CHR ''.'' # t' \<and> t' \<in> lang ?P)"
      using * by (intro exI[of _ d] exI[of _ "''.'' @ t"]) simp
    then have "\<exists>y. ''@'' @ d @ ''.'' @ t = CHR ''@'' # y \<and>
                 (\<exists>d' z. y = d' @ z \<and> d' \<in> lang ?P \<and> (\<exists>t'. z = CHR ''.'' # t' \<and> t' \<in> lang ?P))"
      by simp
    with * show ?L
      by (intro exI[of _ l] exI[of _ "''@'' @ d @ ''.'' @ t"]) simp
  qed
  finally show ?thesis
    unfolding lang_Plus_Atom by blast
qed

lemma phoneRegex_shape:
  "rx_test phoneRegex s \<longleftrightarrow>
     (\<exists>d ds. s = ''+91'' @ d # ds \<and> six_to_nine d \<and> length ds = 9 \<and> list_all is_digit ds)"
  unfolding rx_test_lang phoneRegex_def Lit_def lang_Seq_Atom lang_Times_Atom
  by auto



section \<open>The validator against the rules\<close>

lemma toLowerCase_fixed:
  "toLowerCase ''male'' = ''male''" "toLowerCase ''female'' = ''female''"
  "toLowerCase ''other'' = ''other''"
  by (simp_all add: toLowerCase_def lower_char_def)

lemma email_shape_iff: "rx_test emailRegex s \<longleftrightarrow> email_shape s"
proof -
  have parts: "list_all not_space_at l \<and> list_all not_space_at d \<and> list_all not_space_at t \<longleftrightarrow>
      (\<forall>c \<in> set (l @ d @ t). \<not> is_js_space c \<and> c \<noteq> CHR ''@'')" for l d t
    by (auto simp: list_all_iff not_space_at_def)
  show ?thesis
    unfolding emailRegex_shape email_shape_def by (simp only: parts)
qed

lemma char_in_range:
  assumes "lo \<le> (of_char d :: nat)" "(of_char d :: nat) \<le> hi"
  shows "d \<in> char_of ` {lo..hi}"
proof -
  have "d = char_of (of_char d :: nat)" by simp
  with assms show ?thesis by (metis atLeastAtMost_iff imageI)
qed

lemma six_to_nine_iff: "six_to_nine d \<longleftrightarrow> d \<in> set ''6789''"
proof
  assume "six_to_nine d"
  then have "d \<in> char_of ` {54..57::nat}" unfolding six_to_nine_def by (intro char_in_range) simp_all
  also have "{54..57::nat} = {54, 55, 56, 57}" by auto
  finally show "d \<in> set ''6789''" by (auto simp: char_of_def bit_Suc_0_iff)
next
  assume "d \<in> set ''6789''"
  then show "six_to_nine d" by (auto simp: six_to_nine_def)
qed

lemma is_digit_iff: "is_digit d \<longleftrightarrow> d \<in> set ''0123456789''"
proof
  assume "is_digit d"
  then have "d \<in> char_of ` {48..57::nat}" unfolding is_digit_def by (intro char_in_range) simp_all
  also have "{48..57::nat} = {48, 49, 50, 51, 52, 53, 54, 55, 56, 57}" by auto arith
  finally show "d \<in> set ''0123456789''" by (auto simp: char_of_def bit_Suc_0_iff)
next
  assume "d \<in> set ''0123456789''"
  then show "is_digit d" by (auto simp: is_digit_def)
qed

lemma not_email_shape_Nil: "\<not> email_shape []"
  by (simp add: email_shape_def)

lemma phone_shape_iff: "rx_test phoneRegex s \<longleftrightarrow> phone_shape s"
proof -
  have "phone_shape s \<longleftrightarrow>
     (\<exists>d ds. s = ''+91'' @ d # ds \<and> six_to_nine d \<and> length ds = 9 \<and> list_all is_digit ds)"
    unfolding phone_shape_def six_to_nine_iff list_all_iff Ball_def is_digit_iff
    by (simp split: list.splits)
  then show ?thesis
    unfolding phoneRegex_shape by simp
qed

lemma set_all_rules: "set all_rules = UNIV"
proof -
  have "r \<in> set all_rules" for r by (cases r) (simp_all add: all_rules_def)
  then show ?thesis by blast
qed

lemma distinct_rule_messages: "distinct (map rule_message all_rules)"
  by (simp add: all_rules_def)

subsection \<open>Running the checks\<close>

lemma push_if_append: "push_if c m errors = errors @ (if c then [m] else [])"
  by (simp add: push_if_def)

lemma run_checks_all_return:
  assumes "\<forall>c \<in> set cs. \<exists>b. fst c = Inr b"
  shows "run_checks cs errors =
           Inr (errors @ concat (map (\<lambda>c. if fst c = Inr True then [snd c] else []) cs))"
  using assms
proof (induction cs arbitrary: errors)
  case Nil
  show ?case by simp
next
  case (Cons c cs)
  obtain condition m where c: "c = (condition, m)" by (cases c)
  from Cons.prems obtain b where b: "condition = Inr b" by (auto simp: c)
  from Cons.prems have "\<forall>c \<in> set cs. \<exists>b. fst c = Inr b" by simp
  from Cons.IH[OF this] show ?case
    by (simp add: c b push_if_append)
qed

lemma run_checks_Inr:
  assumes "run_checks cs errors = Inr out"
  shows "(\<forall>c \<in> set cs. \<exists>b. fst c = Inr b) \<and>
         out = errors @ concat (map (\<lambda>c. if fst c = Inr True then [snd c] else []) cs)"
  using assms
proof (induction cs arbitrary: errors)
  case Nil
  then show ?case by simp
next
  case (Cons c cs)
  obtain condition m where c: "c = (condition, m)" by (cases c)
  from Cons.prems obtain b where b: "condition = Inr b"
    and rest: "run_checks cs (push_if b m errors) = Inr out"
    by (cases condition) (simp_all add: c)
  from Cons.IH[OF rest] show ?case
    by (simp add: c b push_if_append)
qed

lemma run_checks_Inl:
  assumes "run_checks cs errors = Inl error"
  shows "\<exists>c \<in> set cs. fst c = Inl error"
  using assms
proof (induction cs arbitrary: errors)
  case Nil
  then show ?case by simp
next
  case (Cons c cs)
  obtain condition m where c: "c = (condition, m)" by (cases c)
  show ?case
  proof (cases condition)
    case (Inl e)
    with Cons.prems show ?thesis by (simp add: c)
  next
    case (Inr b)
    with Cons.prems have "run_checks cs (push_if b m errors) = Inl error" by (simp add: c)
    from Cons.IH[OF this] show ?thesis by simp
  qed
qed

lemma run_checks_none_pushed:
  assumes "run_checks cs [] = Inr []"
  shows "\<forall>c \<in> set cs. fst c = Inr False"
proof
  fix c assume mem: "c \<in> set cs"
  from run_checks_Inr[OF assms]
  have ret: "\<forall>c \<in> set cs. \<exists>b. fst c = Inr b"
    and none: "concat (map (\<lambda>c. if fst c = Inr True then [snd c] else []) cs) = []"
    by simp_all
  from none mem have "fst c \<noteq> Inr True" by (auto split: if_splits)
  moreover from ret mem obtain b where "fst c = Inr b" by blast
  ultimately show "fst c = Inr False" by (cases b) simp_all
qed

subsection \<open>The conditions on strings\<close>

lemma truthy_string: "truthy (Some (JStr s)) \<longleftrightarrow> s \<noteq> []"
  by simp

lemma method_cond_string:
  assumes "string_or_absent v" "\<not> p []"
  shows "not_or v (call_string_method expr v name (\<lambda>s. \<not> p s)) = Inr (\<not> the_string v p)"
proof (cases v)
  case None
  then show ?thesis by (simp add: not_or_def the_string_def)
next
  case (Some x)
  with assms(1) obtain s where "v = Some (JStr s)"
    by (cases x) (simp_all add: string_or_absent_def)
  with assms(2) show ?thesis
    by (cases "s = []") (simp_all add: not_or_def the_string_def call_string_method_def)
qed

lemma trim_cond_string:
  assumes "string_or_absent v" "0 < n"
  shows "not_or v (call_string_method expr v name (\<lambda>s. length (trim s) < n)) =
           Inr (\<not> trimmed_at_least n v)"
proof -
  have "\<not> n \<le> length (trim [])" using assms(2) by (simp add: trim_def)
  from method_cond_string[OF assms(1), of "\<lambda>s. n \<le> length (trim s)", OF this]
  show ?thesis by (simp add: trimmed_at_least_def not_le)
qed

lemma gender_cond_string:
  assumes "string_or_absent v"
  shows "not_or v (call_string_method expr v name
           (\<lambda>s. toLowerCase s \<notin> set [''male'', ''female'', ''other''])) =
         Inr (\<not> one_of_ignoring_case [''male'', ''female'', ''other''] v)"
proof -
  have same: "(\<exists>x \<in> set [''male'', ''female'', ''other'']. toLowerCase s = toLowerCase x) \<longleftrightarrow>
      toLowerCase s \<in> set [''male'', ''female'', ''other'']" for s
    by (simp only: list.set bex_simps toLowerCase_fixed) blast
  have "\<not> toLowerCase [] \<in> set [''male'', ''female'', ''other'']"
    by (simp add: toLowerCase_def)
  from method_cond_string[OF assms,
      of "\<lambda>s. toLowerCase s \<in> set [''male'', ''female'', ''other'']", OF this]
  show ?thesis unfolding one_of_ignoring_case_def same .
qed

lemma test_cond_string:
  assumes "string_or_absent v" "\<not> rx_test regex []"
  shows "not_or v (test_fails regex v) = Inr (\<not> the_string v (rx_test regex))"
proof (cases v)
  case None
  then show ?thesis by (simp add: not_or_def the_string_def)
next
  case (Some x)
  with assms(1) obtain s where "v = Some (JStr s)"
    by (cases x) (simp_all add: string_or_absent_def)
  with assms(2) show ?thesis
    by (cases "s = []") (simp_all add: not_or_def the_string_def test_fails_def and_then_def)
qed

lemma includes_cond:
  assumes "[] \<notin> set xs"
  shows "not_or v (Inr (\<not> js_includes xs v)) = Inr (\<not> one_of xs v)"
proof (cases v)
  case None
  then show ?thesis by (simp add: not_or_def one_of_def the_string_def)
next
  case (Some x)
  with assms show ?thesis
    by (cases x) (auto simp: not_or_def one_of_def the_string_def js_includes_def)
qed

subsection \<open>The checks on a form whose text fields are strings\<close>

lemma checks_messages: "map snd (checks req) = map rule_message all_rules"
  by (simp add: checks_def Let_def all_rules_def)

lemma checks_on_strings:
  assumes "text_fields_are_strings req"
  shows "map fst (checks req) = map (\<lambda>r. Inr (\<not> satisfied r req)) all_rules"
proof -
  let ?b = "body req"
  from assms have s: "string_or_absent (body.fullName ?b)" "string_or_absent (body.email ?b)"
    "string_or_absent (body.phone ?b)" "string_or_absent (body.college ?b)"
    "string_or_absent (body.branch ?b)" "string_or_absent (body.gender ?b)"
    and member: "body.ieeeStatus ?b = Some (JStr ''member'') \<Longrightarrow>
      string_or_absent (body.ieeeMembershipId ?b)"
    by (simp_all add: text_fields_are_strings_def Let_def)
  have email: "rx_test emailRegex = email_shape" and phone: "rx_test phoneRegex = phone_shape"
    by (rule ext, rule email_shape_iff) (rule ext, rule phone_shape_iff)
  have h1: "not_or (body.fullName ?b)
      (call_string_method ''fullName'' (body.fullName ?b) ''trim'' (\<lambda>s. length (trim s) < 2)) =
      Inr (\<not> trimmed_at_least 2 (body.fullName ?b))"
    using s(1) by (rule trim_cond_string) simp
  have h2: "not_or (body.email ?b) (test_fails emailRegex (body.email ?b)) =
      Inr (\<not> the_string (body.email ?b) email_shape)"
    using test_cond_string[OF s(2), of emailRegex]
    by (simp add: email not_email_shape_Nil)
  have h3: "not_or (body.phone ?b) (test_fails phoneRegex (body.phone ?b)) =
      Inr (\<not> the_string (body.phone ?b) phone_shape)"
    using test_cond_string[OF s(3), of phoneRegex]
    by (simp add: phone phone_shape_def)
  have h4: "not_or (body.college ?b)
      (call_string_method ''college'' (body.college ?b) ''trim'' (\<lambda>s. length (trim s) < 2)) =
      Inr (\<not> trimmed_at_least 2 (body.college ?b))"
    using s(4) by (rule trim_cond_string) simp
  have h5: "not_or (body.branch ?b)
      (call_string_method ''branch'' (body.branch ?b) ''trim'' (\<lambda>s. length (trim s) < 2)) =
      Inr (\<not> trimmed_at_least 2 (body.branch ?b))"
    using s(5) by (rule trim_cond_string) simp
  have h6: "not_or (body.year ?b) (Inr (\<not> js_includes [''1'', ''2'', ''3'', ''4''] (body.year ?b))) =
      Inr (\<not> one_of [''1'', ''2'', ''3'', ''4''] (body.year ?b))"
    by (rule includes_cond) simp
  have h7: "not_or (body.gender ?b)
      (call_string_method ''gender'' (body.gender ?b) ''toLowerCase''
         (\<lambda>s. toLowerCase s \<notin> set [''male'', ''female'', ''other''])) =
      Inr (\<not> one_of_ignoring_case [''male'', ''female'', ''other''] (body.gender ?b))"
    using s(6) by (rule gender_cond_string)
  have h8: "not_or (body.accommodation ?b)
      (Inr (\<not> js_includes [''yes'', ''no''] (body.accommodation ?b))) =
      Inr (\<not> one_of [''yes'', ''no''] (body.accommodation ?b))"
    by (rule includes_cond) simp
  have h9: "not_or (body.foodPreference ?b)
      (Inr (\<not> js_includes [''veg'', ''non-veg''] (body.foodPreference ?b))) =
      Inr (\<not> one_of [''veg'', ''non-veg''] (body.foodPreference ?b))"
    by (rule includes_cond) simp
  have h10: "not_or (body.ieeeStatus ?b)
      (Inr (\<not> js_includes [''member'', ''non-member''] (body.ieeeStatus ?b))) =
      Inr (\<not> one_of [''member'', ''non-member''] (body.ieeeStatus ?b))"
    by (rule includes_cond) simp
  have h11: "(if strict_eq (body.ieeeStatus ?b) ''member''
       then not_or (body.ieeeMembershipId ?b)
              (call_string_method ''ieeeMembershipId'' (body.ieeeMembershipId ?b) ''trim''
                 (\<lambda>s. length (trim s) < 5))
       else Inr False) =
      Inr (\<not> (body.ieeeStatus ?b = Some (JStr ''member'') \<longrightarrow>
                trimmed_at_least 5 (body.ieeeMembershipId ?b)))"
  proof (cases "body.ieeeStatus ?b = Some (JStr ''member'')")
    case True
    from trim_cond_string[OF member[OF True], of 5 "''ieeeMembershipId''" "''trim''"] True
    show ?thesis by (simp add: strict_eq_def)
  next
    case False
    then show ?thesis by (simp add: strict_eq_def)
  qed
  have h12: "not_or (body.ticketType ?b)
      (Inr (\<not> js_includes [''ieee'', ''non-ieee''] (body.ticketType ?b))) =
      Inr (\<not> one_of [''ieee'', ''non-ieee''] (body.ticketType ?b))"
    by (rule includes_cond) simp
  show ?thesis
    unfolding checks_def Let_def all_rules_def
    by (simp only: list.map fst_conv satisfied.simps not_not de_Morgan_disj
          h1 h2 h3 h4 h5 h6 h7 h8 h9 h10 h11 h12)
qed

lemma concat_pushed:
  assumes "map fst cs = map (\<lambda>r. Inr (P r)) rs" "map snd cs = map msg rs"
  shows "concat (map (\<lambda>c. if fst c = Inr True then [snd c] else []) cs) = map msg (filter P rs)"
  using assms
proof (induction rs arbitrary: cs)
  case Nil
  then show ?case by simp
next
  case (Cons r rs)
  from Cons.prems(1) obtain c cs' where cs: "cs = c # cs'" by (cases cs) simp_all
  from Cons.prems have "map fst cs' = map (\<lambda>r. Inr (P r)) rs" "map snd cs' = map msg rs"
    and c: "fst c = Inr (P r)" "snd c = msg r"
    by (simp_all add: cs)
  from Cons.IH[OF this(1,2)] c show ?case
    by (simp add: cs)
qed

lemma validation_errors_rules:
  assumes "text_fields_are_strings req"
  shows "validation_errors req =
           Inr (map rule_message (filter (\<lambda>r. \<not> satisfied r req) all_rules))"
proof -
  note fsts = checks_on_strings[OF assms]
  have "\<forall>c \<in> set (checks req). \<exists>b. fst c = Inr b"
  proof
    fix c assume "c \<in> set (checks req)"
    then have "fst c \<in> set (map fst (checks req))" by simp
    then show "\<exists>b. fst c = Inr b" unfolding fsts by auto
  qed
  from run_checks_all_return[OF this, of "[]"] concat_pushed[OF fsts checks_messages]
  show ?thesis by (simp add: validation_errors_def)
qed

lemma validateRegistration_Next: "validateRegistration req = Next \<longleftrightarrow> validation_errors req = Inr []"
  by (cases "validation_errors req") (simp_all add: validateRegistration_def)

lemma validateRegistration_Respond:
  "validateRegistration req = Respond res \<longleftrightarrow>
     (\<exists>errors. validation_errors req = Inr errors \<and> errors \<noteq> [] \<and>
        res = \<lparr>http_status = 400, success = False, message = Some ''Validation failed'',
               payload = Errors errors\<rparr>)"
  by (cases "validation_errors req") (auto simp: validateRegistration_def)

lemma validateRegistration_Throw:
  "validateRegistration req = Throw error \<longleftrightarrow> validation_errors req = Inl error"
  by (cases "validation_errors req") (simp_all add: validateRegistration_def)

subsection \<open>What a form that passed validation holds\<close>

lemma not_or_False: "not_or v c = Inr False \<longleftrightarrow> truthy v \<and> c = Inr False"
  by (simp add: not_or_def)

lemma call_string_method_Inr:
  "call_string_method expr v name f = Inr y \<longleftrightarrow> (\<exists>s. v = Some (JStr s) \<and> y = f s)"
proof (cases v)
  case None
  then show ?thesis by (simp add: call_string_method_def)
next
  case (Some x)
  then show ?thesis by (cases x) (auto simp: call_string_method_def)
qed

lemma validated_checks:
  assumes "validateRegistration req = Next"
  shows "\<forall>c \<in> set (checks req). fst c = Inr False"
proof -
  from assms have "run_checks (checks req) [] = Inr []"
    by (simp add: validateRegistration_Next validation_errors_def)
  then show ?thesis by (rule run_checks_none_pushed)
qed

lemma method_check_passed:
  assumes "not_or v (call_string_method expr v name (\<lambda>s. \<not> p s)) = Inr False"
  shows "the_string v p"
  using assms by (auto simp: not_or_False call_string_method_Inr the_string_def)

lemma includes_check_passed:
  assumes "not_or v (Inr (\<not> js_includes xs v)) = Inr False"
  shows "one_of xs v"
proof -
  from assms have "js_includes xs v" by (simp add: not_or_False)
  then show ?thesis
    by (simp add: js_includes_def one_of_def the_string_def)
qed

lemma validated_satisfied:
  assumes "validateRegistration req = Next" "r \<noteq> R_email" "r \<noteq> R_phone"
  shows "satisfied r req"
proof -
  let ?b = "body req"
  note all = validated_checks[OF assms(1)]
  have passed: "c = Inr False" if "c \<in> fst ` set (checks req)" for c
    using all that by force
  have lt: "(\<lambda>s. length (trim s) < n) = (\<lambda>s. \<not> n \<le> length (trim s))" for n
    by (simp add: not_le)
  show ?thesis
  proof (cases r)
    case R_fullName
    have "not_or (body.fullName ?b)
        (call_string_method ''fullName'' (body.fullName ?b) ''trim'' (\<lambda>s. length (trim s) < 2)) =
        Inr False"
      by (rule passed) (simp add: checks_def Let_def)
    then show ?thesis
      unfolding lt R_fullName satisfied.simps trimmed_at_least_def by (rule method_check_passed)
  next
    case R_email
    with assms(2) show ?thesis by simp
  next
    case R_phone
    with assms(3) show ?thesis by simp
  next
    case R_college
    have "not_or (body.college ?b)
        (call_string_method ''college'' (body.college ?b) ''trim'' (\<lambda>s. length (trim s) < 2)) =
        Inr False"
      by (rule passed) (simp add: checks_def Let_def)
    then show ?thesis
      unfolding lt R_college satisfied.simps trimmed_at_least_def by (rule method_check_passed)
  next
    case R_branch
    have "not_or (body.branch ?b)
        (call_string_method ''branch'' (body.branch ?b) ''trim'' (\<lambda>s. length (trim s) < 2)) =
        Inr False"
      by (rule passed) (simp add: checks_def Let_def)
    then show ?thesis
      unfolding lt R_branch satisfied.simps trimmed_at_least_def by (rule method_check_passed)
  next
    case R_year
    have "not_or (body.year ?b) (Inr (\<not> js_includes [''1'', ''2'', ''3'', ''4''] (body.year ?b))) =
        Inr False"
      by (rule passed) (simp add: checks_def Let_def)
    then show ?thesis
      unfolding R_year satisfied.simps by (rule includes_check_passed)
  next
    case R_gender
    have g: "not_or (body.gender ?b)
        (call_string_method ''gender'' (body.gender ?b) ''toLowerCase''
           (\<lambda>s. toLowerCase s \<notin> set [''male'', ''female'', ''other''])) = Inr False"
      by (rule passed) (simp add: checks_def Let_def)
    have "the_string (body.gender ?b) (\<lambda>s. toLowerCase s \<in> set [''male'', ''female'', ''other''])"
      using g by (rule method_check_passed)
    then show ?thesis
      unfolding R_gender satisfied.simps one_of_ignoring_case_def
      by (auto simp: the_string_def toLowerCase_fixed split: option.splits jsval.splits)
  next
    case R_accommodation
    have "not_or (body.accommodation ?b)
        (Inr (\<not> js_includes [''yes'', ''no''] (body.accommodation ?b))) = Inr False"
      by (rule passed) (simp add: checks_def Let_def)
    then show ?thesis
      unfolding R_accommodation satisfied.simps by (rule includes_check_passed)
  next
    case R_foodPreference
    have "not_or (body.foodPreference ?b)
        (Inr (\<not> js_includes [''veg'', ''non-veg''] (body.foodPreference ?b))) = Inr False"
      by (rule passed) (simp add: checks_def Let_def)
    then show ?thesis
      unfolding R_foodPreference satisfied.simps by (rule includes_check_passed)
  next
    case R_ieeeStatus
    have "not_or (body.ieeeStatus ?b)
        (Inr (\<not> js_includes [''member'', ''non-member''] (body.ieeeStatus ?b))) = Inr False"
      by (rule passed) (simp add: checks_def Let_def)
    then show ?thesis
      unfolding R_ieeeStatus satisfied.simps by (rule includes_check_passed)
  next
    case R_ieeeMembershipId
    have c: "(if strict_eq (body.ieeeStatus ?b) ''member''
         then not_or (body.ieeeMembershipId ?b)
                (call_string_method ''ieeeMembershipId'' (body.ieeeMembershipId ?b) ''trim''
                   (\<lambda>s. length (trim s) < 5))
         else Inr False) = Inr False"
      by (rule passed) (simp add: checks_def Let_def)
    have "trimmed_at_least 5 (body.ieeeMembershipId ?b)"
      if "body.ieeeStatus ?b = Some (JStr ''member'')"
    proof -
      from c that have "not_or (body.ieeeMembershipId ?b)
                (call_string_method ''ieeeMembershipId'' (body.ieeeMembershipId ?b) ''trim''
                   (\<lambda>s. length (trim s) < 5)) = Inr False"
        by (simp add: strict_eq_def)
      then show ?thesis
        unfolding lt trimmed_at_least_def by (rule method_check_passed)
    qed
    then show ?thesis unfolding R_ieeeMembershipId by simp
  next
    case R_ticketType
    have "not_or (body.ticketType ?b)
        (Inr (\<not> js_includes [''ieee'', ''non-ieee''] (body.ticketType ?b))) = Inr False"
      by (rule passed) (simp add: checks_def Let_def)
    then show ?thesis
      unfolding R_ticketType satisfied.simps by (rule includes_check_passed)
  next
    case R_agreeToTerms
    have "Inr (body.agreeToTerms ?b \<noteq> Some (JBool True) \<and>
        body.agreeToTerms ?b \<noteq> Some (JStr ''true'')) = (Inr False :: js_error + bool)"
      by (rule passed) (simp add: checks_def Let_def)
    then show ?thesis unfolding R_agreeToTerms by auto
  next
    case R_file
    have "Inr (upload req = None) = (Inr False :: js_error + bool)"
      by (rule passed) (simp add: checks_def Let_def)
    then show ?thesis unfolding R_file by simp
  qed
qed

lemma validated_email_shape:
  assumes "validateRegistration req = Next" "body.email (body req) = Some (JStr e)"
  shows "email_shape e"
proof -
  have "not_or (body.email (body req)) (test_fails emailRegex (body.email (body req)))
          \<in> fst ` set (checks req)"
    by (simp add: checks_def Let_def)
  with validated_checks[OF assms(1)]
  have "not_or (body.email (body req)) (test_fails emailRegex (body.email (body req))) = Inr False"
    by force
  with assms(2) have "rx_test emailRegex e"
    by (simp add: not_or_False test_fails_def and_then_def)
  then show ?thesis by (simp add: email_shape_iff)
qed

lemma validated_upload:
  assumes "validateRegistration req = Next"
  obtains f where "upload req = Some f"
  using validated_satisfied[OF assms, of R_file] by auto

subsection \<open>The claim about the validator\<close>

text \<open>
  Claim C3, for the forms whose text fields are strings. On a form in which every field
  that the validator calls a string method on or matches against a pattern is a string or
  absent, the validator evaluates every rule and returns one message for each violated
  rule, in the order of the rules: the list it builds is the list of the messages of the
  violated rules. Every rule is in the list of rules, no two rules share a message, a
  violated rule's message is in the result, and the result is empty, so that the
  middleware calls \<open>next()\<close>, exactly when every rule is satisfied.
\<close>

theorem validator_reports_every_violated_rule:
  assumes "text_fields_are_strings req"
  shows "validation_errors req =
           Inr (map rule_message (filter (\<lambda>r. \<not> satisfied r req) all_rules)) \<and>
         set all_rules = UNIV \<and> distinct (map rule_message all_rules) \<and>
         (\<forall>r. \<not> satisfied r req \<longrightarrow>
            (\<exists>errors. validation_errors req = Inr errors \<and> rule_message r \<in> set errors)) \<and>
         (validation_errors req = Inr [] \<longleftrightarrow> (\<forall>r. satisfied r req)) \<and>
         (validateRegistration req = Next \<longleftrightarrow> (\<forall>r. satisfied r req))"
proof -
  have eq: "validation_errors req =
      Inr (map rule_message (filter (\<lambda>r. \<not> satisfied r req) all_rules))"
    using assms by (rule validation_errors_rules)
  have mem: "\<exists>errors. validation_errors req = Inr errors \<and> rule_message r \<in> set errors"
    if "\<not> satisfied r req" for r
    using that set_all_rules unfolding eq by auto
  have empty: "validation_errors req = Inr [] \<longleftrightarrow> (\<forall>r. satisfied r req)"
    unfolding eq using set_all_rules by (auto simp: filter_empty_conv)
  show ?thesis
    using eq mem empty set_all_rules distinct_rule_messages validateRegistration_Next by blast
qed

lemma jane_valid: "validation_errors jane = Inr []"
  by code_simp

lemma jane_bad_phone_errors:
  "validation_errors jane_bad_phone = Inr [''Phone number must be in format: +91XXXXXXXXXX'']"
  by code_simp

lemma jane_strings: "text_fields_are_strings jane" "text_fields_are_strings jane_bad_phone"
  by (simp_all add: text_fields_are_strings_def string_or_absent_def jane_bad_phone_def jane_def)

text \<open>
  The form with the phone number +915876543210 violates the phone rule only and gets
  exactly its message; the complete form satisfies every rule.
\<close>

theorem validator_reports_every_violated_rule_witness:
  "text_fields_are_strings jane_bad_phone \<and> text_fields_are_strings jane \<and>
   \<not> satisfied R_phone jane_bad_phone \<and>
   validation_errors jane_bad_phone = Inr [rule_message R_phone] \<and>
   validation_errors jane = Inr [] \<and> (\<forall>r. satisfied r jane)"
proof -
  note bad = validator_reports_every_violated_rule[OF jane_strings(2)]
  note good = validator_reports_every_violated_rule[OF jane_strings(1)]
  have 1: "\<not> satisfied R_phone jane_bad_phone"
    by (simp add: jane_bad_phone_def jane_def phone_shape_def the_string_def)
  have 3: "validation_errors jane_bad_phone = Inr [rule_message R_phone]"
    by (simp add: jane_bad_phone_errors)
  have 4: "\<forall>r. satisfied r jane"
    using good jane_valid by blast
  show ?thesis
    using 1 3 4 jane_valid jane_strings by blast
qed

text \<open>
  Claim C3 as stated, for every submitted form, fails: when the \<open>fullName\<close> part is sent
  twice the field is an array, \<open>fullName.trim()\<close> throws, and the validator returns no list,
  although the phone rule is violated too.
\<close>

theorem validator_throws_on_array_counterexample:
  "validation_errors jane_name_twice = Inl (JsError None ''fullName.trim is not a function'') \<and>
   \<not> satisfied R_phone jane_name_twice"
proof -
  have "validation_errors jane_name_twice = Inl (JsError None ''fullName.trim is not a function'')"
    by code_simp
  moreover have "\<not> satisfied R_phone jane_name_twice"
    by (simp add: jane_name_twice_def jane_bad_phone_def jane_def phone_shape_def the_string_def)
  ultimately show ?thesis by blast
qed

section \<open>Normalised e-mail addresses\<close>

lemma of_char_lower_char:
  "(of_char (lower_char c) :: nat) = of_char c \<or>
   (97 \<le> (of_char (lower_char c) :: nat) \<and> (of_char (lower_char c) :: nat) \<le> 122) \<or>
   (224 \<le> (of_char (lower_char c) :: nat) \<and> (of_char (lower_char c) :: nat) \<le> 254)"
proof (cases "(65 \<le> (of_char c :: nat) \<and> (of_char c :: nat) \<le> 90) \<or>
    (192 \<le> (of_char c :: nat) \<and> (of_char c :: nat) \<le> 222 \<and> (of_char c :: nat) \<noteq> 215)")
  case True
  then have "lower_char c = char_of ((of_char c :: nat) + 32)"
    by (simp add: lower_char_def Let_def)
  then have "(of_char (lower_char c) :: nat) = ((of_char c :: nat) + 32) mod 256"
    by (simp add: of_char_of)
  with True show ?thesis by auto
next
  case False
  then show ?thesis by (simp add: lower_char_def Let_def)
qed

lemma is_js_space_lower_char: "is_js_space (lower_char c) \<Longrightarrow> is_js_space c"
  using of_char_lower_char[of c] unfolding is_js_space_def by auto

lemma trim_no_space:
  assumes "\<forall>c \<in> set s. \<not> is_js_space c"
  shows "trim s = s"
proof -
  have keep: "dropWhile is_js_space xs = xs" if "\<forall>c \<in> set xs. \<not> is_js_space c" for xs
    using that by (cases xs) simp_all
  have "dropWhile is_js_space s = s" using assms by (rule keep)
  moreover have "dropWhile is_js_space (rev s) = rev s" using assms by (intro keep) simp
  ultimately show ?thesis by (simp add: trim_def)
qed

lemma email_shape_no_space:
  assumes "email_shape e"
  shows "\<forall>c \<in> set e. \<not> is_js_space c"
proof -
  have punct: "\<not> is_js_space CHR ''@''" "\<not> is_js_space CHR ''.''"
    by (simp_all add: is_js_space_def)
  have step: "\<forall>c \<in> set e. \<not> is_js_space c"
    if "e = l @ ''@'' @ d @ ''.'' @ t"
      and "\<forall>c \<in> set (l @ d @ t). \<not> is_js_space c \<and> c \<noteq> CHR ''@''" for l d t
    using that(2) punct unfolding that(1) by auto
  from assms show ?thesis
    unfolding email_shape_def by (elim exE conjE) (rule step)
qed

lemma trim_toLowerCase_email: "email_shape e \<Longrightarrow> trim (toLowerCase e) = toLowerCase e"
proof -
  assume "email_shape e"
  then have "\<forall>c \<in> set e. \<not> is_js_space c" by (rule email_shape_no_space)
  then have "\<forall>c \<in> set (toLowerCase e). \<not> is_js_space c"
    using is_js_space_lower_char by (auto simp: toLowerCase_def)
  then show ?thesis by (rule trim_no_space)
qed

section \<open>Short ticket identifiers\<close>

lemma js_split_not_Nil: "js_split sep s \<noteq> []"
  by (induction s) (auto split: list.splits)

lemma first_segment_js_split:
  "first_segment (js_split sep s) = takeWhile (\<lambda>c. c \<noteq> sep) s"
proof (induction s)
  case Nil
  show ?case by (simp add: first_segment_def)
next
  case (Cons c cs)
  then show ?case
    using js_split_not_Nil[of sep cs]
    by (cases "js_split sep cs") (auto simp: first_segment_def)
qed

lemma is_hex_not_hyphen: "is_hex c \<Longrightarrow> c \<noteq> CHR ''-''"
  by (auto simp: is_hex_def)

lemma uuid_first_segment:
  assumes "is_uuid_v4 u"
  shows "takeWhile (\<lambda>c. c \<noteq> CHR ''-'') u = take 8 u"
proof (rule takeWhile_eq_take_P_nth)
  fix i assume "i < 8" "i < length u"
  then have "u ! i \<in> set (take 8 u)"
    by (metis in_set_conv_nth length_take min_less_iff_conj nth_take)
  moreover have "list_all is_hex (take 8 u)" using assms by (simp add: is_uuid_v4_def)
  ultimately show "u ! i \<noteq> CHR ''-''"
    by (auto simp: list_all_iff dest: is_hex_not_hyphen)
next
  show "\<not> u ! 8 \<noteq> CHR ''-''" using assms by (simp add: is_uuid_v4_def)
qed

lemma generateShortTicketId_uuid:
  "is_uuid_v4 u \<Longrightarrow> generateShortTicketId u = ''THM-'' @ take 8 u"
  by (simp add: generateShortTicketId_def first_segment_js_split uuid_first_segment)

section \<open>The document the handler builds\<close>

lemma and_then_eq_Inr: "and_then m k = Inr y \<longleftrightarrow> (\<exists>x. m = Inr x \<and> k x = Inr y)"
  by (cases m) (simp_all add: and_then_def)

lemma registrationDoc_of_fields:
  assumes "registrationDoc_of b tid sid up t1 t2 = Inr d"
  shows "ticketId d = tid" "shortTicketId d = sid"
    "status d = ''pending''" "createdAt d = t1" "updatedAt d = t2"
    "registrationDoc.agreeToTerms d \<longleftrightarrow>
       body.agreeToTerms b = Some (JBool True) \<or> body.agreeToTerms b = Some (JStr ''true'')"
    "registrationDoc.ieeeStatus d = body.ieeeStatus b"
    "transactionScreenshotUrl d = url up" "transactionScreenshotDeleteUrl d = deleteUrl up"
  using assms unfolding registrationDoc_of_def and_then_eq_Inr call_string_method_Inr
  by auto

lemma registrationDoc_of_member:
  assumes "registrationDoc_of b tid sid up t1 t2 = Inr d"
    and "body.ieeeStatus b = Some (JStr ''member'')"
  shows "\<exists>s. body.ieeeMembershipId b = Some (JStr s) \<and>
           registrationDoc.ieeeMembershipId d = Some (trim s)"
  using assms unfolding registrationDoc_of_def and_then_eq_Inr call_string_method_Inr
  by (auto simp: strict_eq_def call_string_method_Inr)

lemma registrationDoc_of_other:
  assumes "registrationDoc_of b tid sid up t1 t2 = Inr d"
    and "body.ieeeStatus b \<noteq> Some (JStr ''member'')"
  shows "registrationDoc.ieeeMembershipId d = None"
  using assms unfolding registrationDoc_of_def and_then_eq_Inr call_string_method_Inr
  by (auto simp: strict_eq_def call_string_method_Inr)

lemma registrationDoc_of_email:
  assumes "registrationDoc_of b tid sid up t1 t2 = Inr d" "body.email b = Some (JStr e)"
  shows "registrationDoc.email d = trim (toLowerCase e)"
  using assms unfolding registrationDoc_of_def and_then_eq_Inr call_string_method_Inr
  by auto

section \<open>The registration endpoint\<close>

lemmas handler_defs =
  register_endpoint_def register_handler_def caught_def Let_def

lemma calls_start_with_FindOne:
  assumes "validateRegistration req = Next" "body.email (body req) = Some (JStr e)"
  shows "\<exists>rest. calls (register_endpoint env st req) = FindOne (toLowerCase e) # rest"
  using assms
  by (simp add: handler_defs call_string_method_def split: sum.splits option.splits)

lemma found_exits:
  assumes "validateRegistration req = Next" "body.email (body req) = Some (JStr e)"
    and "findOne_email (findOne_fault env) st (toLowerCase e) = Inr (Some r)"
  shows "register_endpoint env st req =
     \<lparr>response =
        \<lparr>http_status = 400, success = False, message = Some ''Email already registered'',
         payload = Error ''This email address has already been used for registration''\<rparr>,
      store_after = st, calls = [FindOne (toLowerCase e)], scheduled = []\<rparr>"
  using assms by (simp add: handler_defs call_string_method_def)

lemma validation_failure_outcome:
  assumes "validation_errors req = Inr errors" "errors \<noteq> []"
  shows "register_endpoint env st req =
     \<lparr>response =
        \<lparr>http_status = 400, success = False, message = Some ''Validation failed'',
         payload = Errors errors\<rparr>,
      store_after = st, calls = [], scheduled = []\<rparr>"
  using assms by (simp add: register_endpoint_def validateRegistration_def)

lemma validation_throw_outcome:
  assumes "validation_errors req = Inl error"
  shows "register_endpoint env st req =
     \<lparr>response = error_handler error, store_after = st, calls = [], scheduled = []\<rparr>"
  using assms by (simp add: register_endpoint_def validateRegistration_def)

lemma not_passed_no_effects:
  assumes "validateRegistration req \<noteq> Next"
  shows "store_after (register_endpoint env st req) = st"
    "calls (register_endpoint env st req) = []"
    "scheduled (register_endpoint env st req) = []"
  using assms by (cases "validateRegistration req"; simp add: register_endpoint_def)+

lemma uploadToImgBB_error_code: "uploadToImgBB post b n = Inl error \<Longrightarrow> code error = None"
  by (auto simp: uploadToImgBB_def split: sum.splits)

lemma call_made_validated:
  "c \<in> set (calls (register_endpoint env st req)) \<Longrightarrow> validateRegistration req = Next"
  by (cases "validateRegistration req") (simp_all add: register_endpoint_def)

lemma failed_upload_outcome:
  assumes "Upload b n \<in> set (calls (register_endpoint env st req))"
    and "uploadToImgBB (imgbb env) b n = Inl error"
  shows "response (register_endpoint env st req) =
           \<lparr>http_status = 500, success = False, message = Some ''Registration failed'',
            payload = Error (err_message error)\<rparr>"
    and "store_after (register_endpoint env st req) = st"
    and "\<forall>d. InsertOne d \<notin> set (calls (register_endpoint env st req))"
    and "scheduled (register_endpoint env st req) = []"
proof -
  have valid: "validateRegistration req = Next"
    using assms(1) by (rule call_made_validated)
  have c: "code error = None" using assms(2) by (rule uploadToImgBB_error_code)
  show "response (register_endpoint env st req) =
           \<lparr>http_status = 500, success = False, message = Some ''Registration failed'',
            payload = Error (err_message error)\<rparr>"
    using assms valid c
    by (auto simp: handler_defs catch_block_def split: sum.splits option.splits)
  show "store_after (register_endpoint env st req) = st"
    using assms valid by (auto simp: handler_defs split: sum.splits option.splits)
  show "\<forall>d. InsertOne d \<notin> set (calls (register_endpoint env st req))"
    using assms valid by (auto simp: handler_defs split: sum.splits option.splits)
  show "scheduled (register_endpoint env st req) = []"
    using assms valid by (auto simp: handler_defs split: sum.splits option.splits)
qed

lemma inserted_doc:
  assumes "InsertOne d \<in> set (calls (register_endpoint env st req))"
  shows "\<exists>up f. upload req = Some f \<and>
           uploadToImgBB (imgbb env) (buffer f)
             (''transaction_'' @ generateShortTicketId (uuidv4 env) @ ''_'' @ decimal (clock env 1)) =
             Inr up \<and>
           registrationDoc_of (body req) (uuidv4 env) (generateShortTicketId (uuidv4 env)) up
             (clock env 2) (clock env 3) = Inr d"
proof -
  have valid: "validateRegistration req = Next"
    using assms by (rule call_made_validated)
  with assms show ?thesis
    by (auto simp: handler_defs split: sum.splits option.splits if_splits)
qed

lemma persisted_shape:
  "store_after (register_endpoint env st req) = st \<or>
   (\<exists>d up e rest.
      body.email (body req) = Some (JStr e) \<and>
      registrationDoc_of (body req) (uuidv4 env) (generateShortTicketId (uuidv4 env)) up
        (clock env 2) (clock env 3) = Inr d \<and>
      insertOne (insertOne_fault env) st d = Inr (store_after (register_endpoint env st req)) \<and>
      calls (register_endpoint env st req) = rest @ [InsertOne d] \<and>
      scheduled (register_endpoint env st req) = [d] \<and>
      response (register_endpoint env st req) =
        \<lparr>http_status = 201, success = True, message = Some ''Registration successful'',
         payload = Data \<lparr>r_ticketId = uuidv4 env,
                          r_shortTicketId = generateShortTicketId (uuidv4 env),
                          r_email = trim (toLowerCase e)\<rparr>\<rparr>)"
proof (cases "validateRegistration req")
  case (Respond res)
  then show ?thesis by (simp add: register_endpoint_def)
next
  case (Throw err)
  then show ?thesis by (simp add: register_endpoint_def)
next
  case Next
  then show ?thesis
    by (auto simp: handler_defs call_string_method_Inr split: sum.splits option.splits if_splits)
qed

lemma insertOne_Inr: "insertOne fault st d = Inr st' \<Longrightarrow> st' = st @ [d] \<and> \<not> duplicate_key st d"
  by (auto simp: insertOne_def split: option.splits if_splits)

lemma store_after_cases:
  "store_after (register_endpoint env st req) = st \<or>
   (\<exists>d rest. store_after (register_endpoint env st req) = st @ [d] \<and>
      \<not> duplicate_key st d \<and>
      calls (register_endpoint env st req) = rest @ [InsertOne d] \<and>
      scheduled (register_endpoint env st req) = [d] \<and>
      response (register_endpoint env st req) =
        \<lparr>http_status = 201, success = True, message = Some ''Registration successful'',
         payload = Data \<lparr>r_ticketId = ticketId d, r_shortTicketId = shortTicketId d,
                          r_email = registrationDoc.email d\<rparr>\<rparr>)"
proof -
  let ?out = "register_endpoint env st req"
  from persisted_shape[of env st req] show ?thesis
  proof
    assume "store_after ?out = st"
    then show ?thesis by simp
  next
    assume "\<exists>d up e rest.
      body.email (body req) = Some (JStr e) \<and>
      registrationDoc_of (body req) (uuidv4 env) (generateShortTicketId (uuidv4 env)) up
        (clock env 2) (clock env 3) = Inr d \<and>
      insertOne (insertOne_fault env) st d = Inr (store_after ?out) \<and>
      calls ?out = rest @ [InsertOne d] \<and>
      scheduled ?out = [d] \<and>
      response ?out =
        \<lparr>http_status = 201, success = True, message = Some ''Registration successful'',
         payload = Data \<lparr>r_ticketId = uuidv4 env,
                          r_shortTicketId = generateShortTicketId (uuidv4 env),
                          r_email = trim (toLowerCase e)\<rparr>\<rparr>"
    then obtain d up e rest where e: "body.email (body req) = Some (JStr e)"
      and doc: "registrationDoc_of (body req) (uuidv4 env) (generateShortTicketId (uuidv4 env)) up
        (clock env 2) (clock env 3) = Inr d"
      and ins: "insertOne (insertOne_fault env) st d = Inr (store_after ?out)"
      and rest: "calls ?out = rest @ [InsertOne d]" "scheduled ?out = [d]"
        "response ?out =
        \<lparr>http_status = 201, success = True, message = Some ''Registration successful'',
         payload = Data \<lparr>r_ticketId = uuidv4 env,
                          r_shortTicketId = generateShortTicketId (uuidv4 env),
                          r_email = trim (toLowerCase e)\<rparr>\<rparr>"
      by (elim exE conjE)
    have "store_after ?out = st @ [d]" "\<not> duplicate_key st d"
      using insertOne_Inr[OF ins] by simp_all
    moreover have "ticketId d = uuidv4 env" "shortTicketId d = generateShortTicketId (uuidv4 env)"
      using registrationDoc_of_fields(1,2)[OF doc] by simp_all
    moreover have "registrationDoc.email d = trim (toLowerCase e)"
      using doc e by (rule registrationDoc_of_email)
    ultimately show ?thesis using rest by simp
  qed
qed

section \<open>Claims about the registration endpoint\<close>

lemma jane_validated: "validateRegistration jane = Next"
  by (simp add: validateRegistration_Next jane_valid)

text \<open>
  Claim C1, for a string address. A request that passed validation and whose \<open>email\<close>
  field is a string first queries the collection for the submitted e-mail address,
  lower-cased and trimmed (the handler lower-cases it; an address that passed validation
  has no white space to trim). If the query finds a document, the answer is 400 "Email
  already registered", the query is the only call made (no identifier is generated, nothing
  is uploaded, nothing is inserted), the collection is unchanged and nothing is scheduled.
\<close>

theorem duplicate_email_exits_before_any_other_call:
  assumes "validateRegistration req = Next" and "body.email (body req) = Some (JStr e)"
  shows "(\<exists>rest. calls (register_endpoint env st req) = FindOne (trim (toLowerCase e)) # rest) \<and>
     (\<forall>r. findOne_email (findOne_fault env) st (trim (toLowerCase e)) = Inr (Some r) \<longrightarrow>
        register_endpoint env st req =
          \<lparr>response =
             \<lparr>http_status = 400, success = False, message = Some ''Email already registered'',
              payload = Error ''This email address has already been used for registration''\<rparr>,
           store_after = st, calls = [FindOne (trim (toLowerCase e))], scheduled = []\<rparr>)"
proof -
  have shape: "email_shape e"
    using assms by (rule validated_email_shape)
  have key: "trim (toLowerCase e) = toLowerCase e"
    using shape by (rule trim_toLowerCase_email)
  have "\<exists>rest. calls (register_endpoint env st req) = FindOne (trim (toLowerCase e)) # rest"
    unfolding key using assms by (rule calls_start_with_FindOne)
  moreover have "register_endpoint env st req =
          \<lparr>response =
             \<lparr>http_status = 400, success = False, message = Some ''Email already registered'',
              payload = Error ''This email address has already been used for registration''\<rparr>,
           store_after = st, calls = [FindOne (trim (toLowerCase e))], scheduled = []\<rparr>"
    if "findOne_email (findOne_fault env) st (trim (toLowerCase e)) = Inr (Some r)" for r
    using that unfolding key by (rule found_exits[OF assms])
  ultimately show ?thesis by blast
qed

text \<open>
  The complete form submitted again when its document is already stored: the query by
  \<open>jane@x.com\<close> is the only call.
\<close>

theorem duplicate_email_exits_before_any_other_call_witness:
  "validateRegistration jane = Next \<and>
   body.email (body jane) = Some (JStr ''Jane@X.com'') \<and>
   findOne_email (findOne_fault env0) [jane_doc] (trim (toLowerCase ''Jane@X.com'')) =
     Inr (Some jane_doc) \<and>
   calls (register_endpoint env0 [jane_doc] jane) = [FindOne ''jane@x.com''] \<and>
   store_after (register_endpoint env0 [jane_doc] jane) = [jane_doc] \<and>
   http_status (response (register_endpoint env0 [jane_doc] jane)) = 400"
proof -
  have e: "body.email (body jane) = Some (JStr ''Jane@X.com'')"
    by (simp add: jane_def)
  have k: "trim (toLowerCase ''Jane@X.com'') = ''jane@x.com''"
    by code_simp
  have f: "findOne_email (findOne_fault env0) [jane_doc] ''jane@x.com'' = Inr (Some jane_doc)"
    by (simp add: findOne_email_def env0_def jane_doc_def)
  from duplicate_email_exits_before_any_other_call[OF jane_validated e, of env0 "[jane_doc]"]
  show ?thesis
    using e k f jane_validated by auto
qed

text \<open>
  Claim C1 as stated, for every submission that passes validation, fails: an address sent
  in a part named \<open>email[]\<close> is a one-element array, which the pattern test converts to a
  string and accepts; the handler then throws at \<open>email.toLowerCase()\<close>, answers 500 and
  never queries the collection, although the address is already registered.
\<close>

theorem array_email_skips_the_query_counterexample:
  "validateRegistration jane_email_array = Next \<and>
   register_endpoint env0 [jane_doc] jane_email_array =
     \<lparr>response =
        \<lparr>http_status = 500, success = False, message = Some ''Registration failed'',
         payload = Error ''email.toLowerCase is not a function''\<rparr>,
      store_after = [jane_doc], calls = [], scheduled = []\<rparr>"
  by code_simp

text \<open>
  Claim C2. When the upload that is attempted fails, the answer is 500 "Registration
  failed" with the upload's error message, no insert is attempted, the collection is
  unchanged and nothing is scheduled.
\<close>

theorem failed_upload_persists_nothing:
  assumes "Upload b n \<in> set (calls (register_endpoint env st req))"
    and "uploadToImgBB (imgbb env) b n = Inl error"
  shows "response (register_endpoint env st req) =
           \<lparr>http_status = 500, success = False, message = Some ''Registration failed'',
            payload = Error (err_message error)\<rparr> \<and>
         store_after (register_endpoint env st req) = st \<and>
         (\<forall>d. InsertOne d \<notin> set (calls (register_endpoint env st req))) \<and>
         scheduled (register_endpoint env st req) = []"
  using failed_upload_outcome[OF assms] by blast

theorem failed_upload_persists_nothing_witness:
  "Upload ''JFIF'' ''transaction_THM-550e8400_1001'' \<in>
     set (calls (register_endpoint env_host_down [] jane)) \<and>
   uploadToImgBB (imgbb env_host_down) ''JFIF'' ''transaction_THM-550e8400_1001'' =
     Inl (JsError None ''Failed to upload image to ImgBB: connect ECONNREFUSED'') \<and>
   http_status (response (register_endpoint env_host_down [] jane)) = 500 \<and>
   store_after (register_endpoint env_host_down [] jane) = []"
proof -
  have c: "calls (register_endpoint env_host_down [] jane) =
      [FindOne ''jane@x.com'', Uuidv4, Upload ''JFIF'' ''transaction_THM-550e8400_1001'']"
    by code_simp
  have u: "uploadToImgBB (imgbb env_host_down) ''JFIF'' ''transaction_THM-550e8400_1001'' =
     Inl (JsError None ''Failed to upload image to ImgBB: connect ECONNREFUSED'')"
    by code_simp
  have m: "Upload ''JFIF'' ''transaction_THM-550e8400_1001'' \<in>
     set (calls (register_endpoint env_host_down [] jane))"
    unfolding c by simp
  from failed_upload_persists_nothing[OF m u] m u show ?thesis by simp
qed

text \<open>
  Claim C6, as the code has it. A form that does not pass validation never reaches the
  handler: no call to the image host or to the collection is made, the collection is
  unchanged and no mirror callback is scheduled or run. When the validator returns its
  list of violations, which it does on every form whose text fields are strings, the
  middleware answers 400 "Validation failed" with that list, the messages of all violated
  rules. When the validator throws, the error handler answers 500 "Internal server error".
\<close>

theorem validation_failure_has_no_side_effects:
  assumes "validateRegistration req \<noteq> Next"
  shows "store_after (register_endpoint env st req) = st \<and>
         calls (register_endpoint env st req) = [] \<and>
         scheduled (register_endpoint env st req) = [] \<and>
         mirrored (serve_register env senv st req) = [] \<and>
         (\<forall>errors. validation_errors req = Inr errors \<longrightarrow>
            errors \<noteq> [] \<and>
            response (register_endpoint env st req) =
              \<lparr>http_status = 400, success = False, message = Some ''Validation failed'',
               payload = Errors errors\<rparr>) \<and>
         (\<forall>error. validation_errors req = Inl error \<longrightarrow>
            response (register_endpoint env st req) = error_handler error) \<and>
         (text_fields_are_strings req \<longrightarrow>
            response (register_endpoint env st req) =
              \<lparr>http_status = 400, success = False, message = Some ''Validation failed'',
               payload = Errors (map rule_message (filter (\<lambda>r. \<not> satisfied r req) all_rules))\<rparr>)"
proof -
  note quiet = not_passed_no_effects[OF assms, of env st]
  have m: "mirrored (serve_register env senv st req) = []"
    by (simp add: serve_register_def Let_def quiet(3))
  have listed: "errors \<noteq> [] \<and>
      response (register_endpoint env st req) =
        \<lparr>http_status = 400, success = False, message = Some ''Validation failed'',
         payload = Errors errors\<rparr>"
    if e: "validation_errors req = Inr errors" for errors
  proof -
    from assms e have ne: "errors \<noteq> []" by (auto simp: validateRegistration_Next)
    from validation_failure_outcome[OF e ne, of env st] ne show ?thesis by simp
  qed
  have thrown: "response (register_endpoint env st req) = error_handler error"
    if "validation_errors req = Inl error" for error
    using validation_throw_outcome[OF that, of env st] by simp
  have strings: "response (register_endpoint env st req) =
        \<lparr>http_status = 400, success = False, message = Some ''Validation failed'',
         payload = Errors (map rule_message (filter (\<lambda>r. \<not> satisfied r req) all_rules))\<rparr>"
    if "text_fields_are_strings req"
    using listed[OF validation_errors_rules[OF that]] by simp
  from quiet m listed thrown strings show ?thesis by blast
qed

theorem validation_failure_has_no_side_effects_witness:
  "validateRegistration jane_bad_phone \<noteq> Next \<and>
   validation_errors jane_bad_phone = Inr [''Phone number must be in format: +91XXXXXXXXXX''] \<and>
   response (register_endpoint env0 [] jane_bad_phone) =
     \<lparr>http_status = 400, success = False, message = Some ''Validation failed'',
      payload = Errors [''Phone number must be in format: +91XXXXXXXXXX'']\<rparr> \<and>
   calls (register_endpoint env0 [] jane_bad_phone) = [] \<and>
   store_after (register_endpoint env0 [] jane_bad_phone) = [] \<and>
   validateRegistration jane_name_twice \<noteq> Next \<and>
   validation_errors jane_name_twice = Inl (JsError None ''fullName.trim is not a function'') \<and>
   response (register_endpoint env0 [] jane_name_twice) =
     error_handler (JsError None ''fullName.trim is not a function'') \<and>
   calls (register_endpoint env0 [] jane_name_twice) = []"
proof -
  have v: "validateRegistration jane_bad_phone \<noteq> Next"
    by (simp add: validateRegistration_Next jane_bad_phone_errors)
  have t: "validation_errors jane_name_twice = Inl (JsError None ''fullName.trim is not a function'')"
    by code_simp
  then have w: "validateRegistration jane_name_twice \<noteq> Next"
    by (simp add: validateRegistration_Next)
  note a = validation_failure_has_no_side_effects[OF v, of env0 "[]"]
  note b = validation_failure_has_no_side_effects[OF w, of env0 "[]"]
  have "response (register_endpoint env0 [] jane_bad_phone) =
     \<lparr>http_status = 400, success = False, message = Some ''Validation failed'',
      payload = Errors [''Phone number must be in format: +91XXXXXXXXXX'']\<rparr>"
    using a jane_bad_phone_errors by blast
  moreover have "response (register_endpoint env0 [] jane_name_twice) =
     error_handler (JsError None ''fullName.trim is not a function'')"
    using b t by blast
  ultimately show ?thesis
    using a b v w t jane_bad_phone_errors by blast
qed

text \<open>
  Claim C6 as stated, a 400 response listing all violations for every form that fails
  validation, fails: the form with the bad phone number and the \<open>fullName\<close> part sent twice
  does not pass validation and is answered 500 with no list of violations.
\<close>

theorem failed_validation_answered_500_counterexample:
  "validateRegistration jane_name_twice \<noteq> Next \<and>
   register_endpoint env0 [] jane_name_twice =
     \<lparr>response =
        \<lparr>http_status = 500, success = False, message = Some ''Internal server error'',
         payload = Error ''fullName.trim is not a function''\<rparr>,
      store_after = [], calls = [], scheduled = []\<rparr>"
  by code_simp

lemma jane_inserted: "InsertOne jane_doc \<in> set (calls (register_endpoint env0 [] jane))"
  by code_simp

text \<open>
  Claim C4. For a version-4 UUID the short identifier is \<open>THM-\<close> followed by the first
  hyphen-separated segment of the UUID, which is its first 8 characters, all lower-case
  hexadecimal digits. It is computed from the UUID alone; the handler stores the UUID it was
  given as \<open>ticketId\<close> and this value as \<open>shortTicketId\<close>, so deriving it again from a
  stored \<open>ticketId\<close> gives the stored \<open>shortTicketId\<close>.
\<close>

theorem shortTicketId_is_THM_and_first_segment:
  assumes "is_uuid_v4 u"
  shows "generateShortTicketId u = ''THM-'' @ take 8 u \<and>
         first_segment (js_split CHR ''-'' u) = take 8 u \<and>
         length (take 8 u) = 8 \<and> list_all is_hex (take 8 u) \<and>
         (\<forall>env st req d. uuidv4 env = u \<longrightarrow>
            InsertOne d \<in> set (calls (register_endpoint env st req)) \<longrightarrow>
            ticketId d = u \<and> shortTicketId d = ''THM-'' @ take 8 u \<and>
            generateShortTicketId (ticketId d) = shortTicketId d)"
proof -
  have short: "generateShortTicketId u = ''THM-'' @ take 8 u"
    using assms by (rule generateShortTicketId_uuid)
  have seg: "first_segment (js_split CHR ''-'' u) = take 8 u"
    using assms by (simp add: first_segment_js_split uuid_first_segment)
  have len: "length (take 8 u) = 8" and hex: "list_all is_hex (take 8 u)"
    using assms by (simp_all add: is_uuid_v4_def)
  have stored: "ticketId d = u \<and> shortTicketId d = ''THM-'' @ take 8 u \<and>
      generateShortTicketId (ticketId d) = shortTicketId d"
    if "uuidv4 env = u" "InsertOne d \<in> set (calls (register_endpoint env st req))"
    for env st req d
  proof -
    from inserted_doc[OF that(2)] obtain up where
      "registrationDoc_of (body req) (uuidv4 env) (generateShortTicketId (uuidv4 env)) up
         (clock env 2) (clock env 3) = Inr d"
      by blast
    from registrationDoc_of_fields(1,2)[OF this] that(1) short show ?thesis by simp
  qed
  from short seg len hex stored show ?thesis by blast
qed

theorem shortTicketId_is_THM_and_first_segment_witness:
  "is_uuid_v4 ''550e8400-e29b-41d4-a716-446655440000'' \<and>
   generateShortTicketId ''550e8400-e29b-41d4-a716-446655440000'' = ''THM-550e8400'' \<and>
   InsertOne jane_doc \<in> set (calls (register_endpoint env0 [] jane)) \<and>
   shortTicketId jane_doc = ''THM-550e8400''"
proof -
  have u: "is_uuid_v4 ''550e8400-e29b-41d4-a716-446655440000''"
    by code_simp
  have e: "uuidv4 env0 = ''550e8400-e29b-41d4-a716-446655440000''"
    by (simp add: env0_def)
  note inst = shortTicketId_is_THM_and_first_segment[OF u]
  have g: "generateShortTicketId ''550e8400-e29b-41d4-a716-446655440000'' = ''THM-550e8400''"
    using inst by simp
  have "shortTicketId jane_doc = ''THM-'' @ take 8 ''550e8400-e29b-41d4-a716-446655440000''"
    using inst e jane_inserted by blast
  then have "shortTicketId jane_doc = ''THM-550e8400''" by simp
  with u g jane_inserted show ?thesis by blast
qed

text \<open>
  Claim C5. In every document the endpoint inserts, \<open>ieeeMembershipId\<close> is not null
  exactly when the submitted \<open>ieeeStatus\<close> is \<open>member\<close>. For a member it is the submitted
  identifier trimmed, of at least 5 characters; otherwise the status is \<open>non-member\<close> and
  the stored identifier is null, whatever was submitted. The document is the one appended
  to the collection when the insert succeeds.
\<close>

theorem membership_id_stored_iff_member:
  assumes "InsertOne d \<in> set (calls (register_endpoint env st req))"
  shows "(registrationDoc.ieeeMembershipId d \<noteq> None \<longleftrightarrow>
            body.ieeeStatus (body req) = Some (JStr ''member'')) \<and>
         registrationDoc.ieeeStatus d = body.ieeeStatus (body req) \<and>
         (body.ieeeStatus (body req) = Some (JStr ''member'') \<longrightarrow>
            (\<exists>s. body.ieeeMembershipId (body req) = Some (JStr s) \<and>
                 registrationDoc.ieeeMembershipId d = Some (trim s) \<and> 5 \<le> length (trim s))) \<and>
         (body.ieeeStatus (body req) \<noteq> Some (JStr ''member'') \<longrightarrow>
            body.ieeeStatus (body req) = Some (JStr ''non-member'') \<and>
            registrationDoc.ieeeMembershipId d = None) \<and>
         (store_after (register_endpoint env st req) = st \<or>
          store_after (register_endpoint env st req) = st @ [d])"
proof -
  have valid: "validateRegistration req = Next"
    using assms by (rule call_made_validated)
  from inserted_doc[OF assms] obtain up f where
    doc: "registrationDoc_of (body req) (uuidv4 env) (generateShortTicketId (uuidv4 env)) up
         (clock env 2) (clock env 3) = Inr d"
    and sent: "upload req = Some f"
    and up: "uploadToImgBB (imgbb env) (buffer f)
         (''transaction_'' @ generateShortTicketId (uuidv4 env) @ ''_'' @ decimal (clock env 1)) =
         Inr up"
    by blast
  note f = registrationDoc_of_fields[OF doc]
  have status: "body.ieeeStatus (body req) = Some (JStr ''member'') \<or>
      body.ieeeStatus (body req) = Some (JStr ''non-member'')"
    using validated_satisfied[OF valid, of R_ieeeStatus]
    by (auto simp: one_of_def the_string_def split: option.splits jsval.splits)
  have member: "\<exists>s. body.ieeeMembershipId (body req) = Some (JStr s) \<and>
      registrationDoc.ieeeMembershipId d = Some (trim s) \<and> 5 \<le> length (trim s)"
    if m: "body.ieeeStatus (body req) = Some (JStr ''member'')"
  proof -
    from registrationDoc_of_member[OF doc m] obtain s where
      s: "body.ieeeMembershipId (body req) = Some (JStr s)"
        "registrationDoc.ieeeMembershipId d = Some (trim s)"
      by blast
    from validated_satisfied[OF valid, of R_ieeeMembershipId] m s(1)
    have "5 \<le> length (trim s)"
      by (simp add: trimmed_at_least_def the_string_def)
    with s show ?thesis by blast
  qed
  have other: "registrationDoc.ieeeMembershipId d = None"
    if "body.ieeeStatus (body req) \<noteq> Some (JStr ''member'')"
    using doc that by (rule registrationDoc_of_other)
  have stored: "store_after (register_endpoint env st req) = st \<or>
      store_after (register_endpoint env st req) = st @ [d]"
  proof -
    from store_after_cases[of env st req] show ?thesis
    proof
      assume "store_after (register_endpoint env st req) = st"
      then show ?thesis by simp
    next
      assume "\<exists>d rest. store_after (register_endpoint env st req) = st @ [d] \<and>
        \<not> duplicate_key st d \<and>
        calls (register_endpoint env st req) = rest @ [InsertOne d] \<and>
        scheduled (register_endpoint env st req) = [d] \<and>
        response (register_endpoint env st req) =
          \<lparr>http_status = 201, success = True, message = Some ''Registration successful'',
           payload = Data \<lparr>r_ticketId = ticketId d, r_shortTicketId = shortTicketId d,
                            r_email = registrationDoc.email d\<rparr>\<rparr>"
      then obtain d' rest where s: "store_after (register_endpoint env st req) = st @ [d']"
        and c: "calls (register_endpoint env st req) = rest @ [InsertOne d']"
        by (elim exE conjE)
      have "InsertOne d' \<in> set (calls (register_endpoint env st req))"
        unfolding c by simp
      from inserted_doc[OF this] doc up sent have "d' = d" by auto
      with s show ?thesis by simp
    qed
  qed
  from f(7) status member other stored show ?thesis by auto
qed

theorem membership_id_stored_iff_member_witness:
  "InsertOne jane_member_doc \<in> set (calls (register_endpoint env0 [] jane_member)) \<and>
   body.ieeeStatus (body jane_member) = Some (JStr ''member'') \<and>
   body.ieeeMembershipId (body jane_member) = Some (JStr '' 12345678 '') \<and>
   registrationDoc.ieeeMembershipId jane_member_doc = Some ''12345678'' \<and>
   InsertOne jane_doc \<in> set (calls (register_endpoint env0 [] jane)) \<and>
   body.ieeeStatus (body jane) = Some (JStr ''non-member'') \<and>
   registrationDoc.ieeeMembershipId jane_doc = None"
proof -
  have m: "InsertOne jane_member_doc \<in> set (calls (register_endpoint env0 [] jane_member))"
    by code_simp
  have req: "body.ieeeStatus (body jane_member) = Some (JStr ''member'')"
    "body.ieeeMembershipId (body jane_member) = Some (JStr '' 12345678 '')"
    "body.ieeeStatus (body jane) = Some (JStr ''non-member'')"
    by (simp_all add: jane_member_def jane_def)
  have t: "trim '' 12345678 '' = ''12345678''"
    by code_simp
  note member = membership_id_stored_iff_member[OF m]
  note other = membership_id_stored_iff_member[OF jane_inserted]
  have "registrationDoc.ieeeMembershipId jane_member_doc = Some ''12345678''"
    using member req t by auto
  moreover have "registrationDoc.ieeeMembershipId jane_doc = None"
    using other req by auto
  ultimately show ?thesis
    using m jane_inserted req by blast
qed

text \<open>
  Claim C10, as the code has it. Every document the endpoint inserts has status
  \<open>pending\<close> and \<open>agreeToTerms\<close> true, whatever the request says. \<open>createdAt\<close> and
  \<open>updatedAt\<close> are two successive readings of the clock, taken while the document is
  built, after the upload and before the insert: the handler's third and fourth readings.
\<close>

theorem inserted_document_is_pending_and_agreed:
  assumes "InsertOne d \<in> set (calls (register_endpoint env st req))"
  shows "status d = ''pending'' \<and> registrationDoc.agreeToTerms d = True \<and>
         createdAt d = clock env 2 \<and> updatedAt d = clock env 3"
proof -
  have valid: "validateRegistration req = Next"
    using assms by (rule call_made_validated)
  from inserted_doc[OF assms] obtain up where
    doc: "registrationDoc_of (body req) (uuidv4 env) (generateShortTicketId (uuidv4 env)) up
         (clock env 2) (clock env 3) = Inr d"
    by blast
  note f = registrationDoc_of_fields[OF doc]
  have "registrationDoc.agreeToTerms d"
    using f(6) validated_satisfied[OF valid, of R_agreeToTerms] by simp
  with f(3,4,5) show ?thesis by simp
qed

theorem inserted_document_is_pending_and_agreed_witness:
  "InsertOne jane_doc \<in> set (calls (register_endpoint env0 [] jane)) \<and>
   status jane_doc = ''pending'' \<and> registrationDoc.agreeToTerms jane_doc = True \<and>
   createdAt jane_doc = clock env0 2 \<and> updatedAt jane_doc = clock env0 3"
  using inserted_document_is_pending_and_agreed[OF jane_inserted] jane_inserted
  by blast

text \<open>
  Claim C10 as stated fails: with a clock that advances between the two readings, the
  inserted document has \<open>createdAt = 1002\<close> and \<open>updatedAt = 1003\<close>, not one timestamp.
\<close>

theorem timestamps_differ_counterexample:
  "store_after (register_endpoint env0 [] jane) = [jane_doc] \<and>
   createdAt jane_doc \<noteq> updatedAt jane_doc"
  by code_simp

section \<open>Well-formed collections and lookup\<close>

lemma find_the_only_match:
  assumes "r \<in> set xs" "P r" "\<forall>x \<in> set xs. P x \<longrightarrow> x = r"
  shows "find P xs = Some r"
  using assms
proof (induction xs)
  case Nil
  then show ?case by simp
next
  case (Cons a xs)
  show ?case
  proof (cases "P a")
    case True
    with Cons.prems(3) have "a = r" by simp
    with True show ?thesis by simp
  next
    case False
    with Cons.prems(2) have "a \<noteq> r" by blast
    with Cons.prems(1) have "r \<in> set xs" by simp
    moreover have "\<forall>x \<in> set xs. P x \<longrightarrow> x = r" using Cons.prems(3) by simp
    ultimately have "find P xs = Some r" using Cons.prems(2) by (intro Cons.IH)
    with False show ?thesis by simp
  qed
qed

lemma store_ok_same_ticketId:
  assumes "store_ok st" "x \<in> set st" "r \<in> set st" "ticketId x = ticketId r"
  shows "x = r"
proof -
  from assms(1) have "inj_on ticketId (set st)"
    by (simp add: store_ok_def distinct_map)
  then show ?thesis using assms(4,2,3) by (rule inj_onD)
qed

lemma store_ok_same_shortTicketId:
  assumes "store_ok st" "x \<in> set st" "r \<in> set st" "shortTicketId x = shortTicketId r"
  shows "x = r"
proof -
  from assms(1) have "inj_on shortTicketId (set st)"
    by (simp add: store_ok_def distinct_map)
  then show ?thesis using assms(4,2,3) by (rule inj_onD)
qed

lemma store_ok_lengths:
  assumes "store_ok st" "x \<in> set st"
  shows "length (ticketId x) = 36" "length (shortTicketId x) = 12"
proof -
  from assms have u: "is_uuid_v4 (ticketId x)"
    and s: "shortTicketId x = generateShortTicketId (ticketId x)"
    by (auto simp: store_ok_def list_all_iff)
  show "length (ticketId x) = 36" using u by (simp add: is_uuid_v4_def)
  then show "length (shortTicketId x) = 12"
    using s generateShortTicketId_uuid[OF u] by simp
qed

lemma store_ok_short_is_no_ticketId:
  assumes "store_ok st" "x \<in> set st" "r \<in> set st"
  shows "shortTicketId x \<noteq> ticketId r"
  using store_ok_lengths[OF assms(1,2)] store_ok_lengths[OF assms(1,3)] by auto

lemma lookup_found:
  assumes "find (\<lambda>x. ticketId x = i \<or> shortTicketId x = i) st = Some r"
  shows "lookup_endpoint None st i =
           \<lparr>http_status = 200, success = True, message = None, payload = Found (safeData_of r)\<rparr>"
  using assms by (simp add: lookup_endpoint_def findOne_either_def)

lemma lookup_by_ticketId:
  assumes "store_ok st" "r \<in> set st"
  shows "lookup_endpoint None st (ticketId r) =
           \<lparr>http_status = 200, success = True, message = None, payload = Found (safeData_of r)\<rparr>"
proof (rule lookup_found, rule find_the_only_match)
  show "r \<in> set st" by (rule assms(2))
  show "ticketId r = ticketId r \<or> shortTicketId r = ticketId r" by simp
  show "\<forall>x \<in> set st. ticketId x = ticketId r \<or> shortTicketId x = ticketId r \<longrightarrow> x = r"
    using store_ok_same_ticketId[OF assms(1) _ assms(2)]
      store_ok_short_is_no_ticketId[OF assms(1) _ assms(2)] by blast
qed

lemma lookup_by_shortTicketId:
  assumes "store_ok st" "r \<in> set st"
  shows "lookup_endpoint None st (shortTicketId r) =
           \<lparr>http_status = 200, success = True, message = None, payload = Found (safeData_of r)\<rparr>"
proof (rule lookup_found, rule find_the_only_match)
  show "r \<in> set st" by (rule assms(2))
  show "ticketId r = shortTicketId r \<or> shortTicketId r = shortTicketId r" by simp
  show "\<forall>x \<in> set st. ticketId x = shortTicketId r \<or> shortTicketId x = shortTicketId r \<longrightarrow> x = r"
    using store_ok_same_shortTicketId[OF assms(1) _ assms(2)]
      store_ok_short_is_no_ticketId[OF assms(1) assms(2)] by metis
qed

lemma lookup_not_found:
  assumes "\<forall>x \<in> set st. ticketId x \<noteq> i \<and> shortTicketId x \<noteq> i"
  shows "lookup_endpoint None st i =
           \<lparr>http_status = 404, success = False, message = Some ''Registration not found'',
            payload = NoPayload\<rparr>"
proof -
  have "find (\<lambda>x. ticketId x = i \<or> shortTicketId x = i) st = None"
    using assms by (simp add: find_None_iff)
  then show ?thesis by (simp add: lookup_endpoint_def findOne_either_def)
qed

lemma lookup_some_match:
  assumes "\<exists>x \<in> set st. ticketId x = i \<or> shortTicketId x = i"
  shows "\<exists>x \<in> set st. (ticketId x = i \<or> shortTicketId x = i) \<and>
           lookup_endpoint None st i =
             \<lparr>http_status = 200, success = True, message = None, payload = Found (safeData_of x)\<rparr>"
proof -
  from assms obtain x where
    "find (\<lambda>x. ticketId x = i \<or> shortTicketId x = i) st = Some x"
    by (cases "find (\<lambda>x. ticketId x = i \<or> shortTicketId x = i) st")
       (auto simp: find_None_iff)
  moreover from this have "x \<in> set st" "ticketId x = i \<or> shortTicketId x = i"
    by (auto simp: find_Some_iff)
  ultimately show ?thesis using lookup_found by blast
qed

lemma with_deleteUrl_safeData_of:
  "with_deleteUrl (safeData_of r) (transactionScreenshotDeleteUrl r) = r"
  by (simp add: with_deleteUrl_def safeData_of_def)

lemma store_ok_Nil: "store_ok []"
  by (simp add: store_ok_def)

lemma store_ok_preserved:
  assumes "store_ok st" "is_uuid_v4 (uuidv4 env)"
  shows "store_ok (store_after (register_endpoint env st req))"
proof -
  let ?out = "register_endpoint env st req"
  from persisted_shape[of env st req] show ?thesis
  proof
    assume "store_after ?out = st"
    with assms(1) show ?thesis by simp
  next
    assume "\<exists>d up e rest.
      body.email (body req) = Some (JStr e) \<and>
      registrationDoc_of (body req) (uuidv4 env) (generateShortTicketId (uuidv4 env)) up
        (clock env 2) (clock env 3) = Inr d \<and>
      insertOne (insertOne_fault env) st d = Inr (store_after ?out) \<and>
      calls ?out = rest @ [InsertOne d] \<and>
      scheduled ?out = [d] \<and>
      response ?out =
        \<lparr>http_status = 201, success = True, message = Some ''Registration successful'',
         payload = Data \<lparr>r_ticketId = uuidv4 env,
                          r_shortTicketId = generateShortTicketId (uuidv4 env),
                          r_email = trim (toLowerCase e)\<rparr>\<rparr>"
    then obtain d up where
      doc: "registrationDoc_of (body req) (uuidv4 env) (generateShortTicketId (uuidv4 env)) up
        (clock env 2) (clock env 3) = Inr d"
      and ins: "insertOne (insertOne_fault env) st d = Inr (store_after ?out)"
      by (elim exE conjE)
    have after: "store_after ?out = st @ [d]" and fresh: "\<not> duplicate_key st d"
      using insertOne_Inr[OF ins] by simp_all
    have ids: "ticketId d = uuidv4 env" "shortTicketId d = generateShortTicketId (uuidv4 env)"
      using registrationDoc_of_fields(1,2)[OF doc] by simp_all
    have "ticketId d \<notin> ticketId ` set st" "shortTicketId d \<notin> shortTicketId ` set st"
      using fresh by (auto simp: duplicate_key_def list_ex_iff)
    with assms ids show ?thesis
      unfolding after by (simp add: store_ok_def)
  qed
qed

section \<open>Claims about lookup and the sheet mirror\<close>

lemma jane_stored: "store_after (register_endpoint env0 [] jane) = [jane_doc]"
  by code_simp

lemma store_ok_jane: "store_ok [jane_doc]"
  by code_simp

text \<open>
  Claim C7. In a well-formed collection (one built by the registration endpoint from
  version-4 UUIDs, under the unique indexes), looking a stored document up by its
  \<open>ticketId\<close> and by its \<open>shortTicketId\<close> gives the same answer: 200 with that document
  without its \<open>transactionScreenshotDeleteUrl\<close>; every other field is kept, so putting the
  delete handle back restores the document. If no document has the identifier as
  \<open>ticketId\<close> or \<open>shortTicketId\<close> the answer is 404 "Registration not found"; if one
  has, the answer is 200 with a matching document. The store is taken to answer the query.
\<close>

theorem lookup_by_either_identifier:
  "(store_ok st \<longrightarrow> r \<in> set st \<longrightarrow>
      lookup_endpoint None st (ticketId r) =
        \<lparr>http_status = 200, success = True, message = None, payload = Found (safeData_of r)\<rparr> \<and>
      lookup_endpoint None st (shortTicketId r) = lookup_endpoint None st (ticketId r)) \<and>
   with_deleteUrl (safeData_of r) (transactionScreenshotDeleteUrl r) = r \<and>
   ((\<forall>x \<in> set st. ticketId x \<noteq> i \<and> shortTicketId x \<noteq> i) \<longrightarrow>
      lookup_endpoint None st i =
        \<lparr>http_status = 404, success = False, message = Some ''Registration not found'',
         payload = NoPayload\<rparr>) \<and>
   ((\<exists>x \<in> set st. ticketId x = i \<or> shortTicketId x = i) \<longrightarrow>
      (\<exists>x \<in> set st. (ticketId x = i \<or> shortTicketId x = i) \<and>
         lookup_endpoint None st i =
           \<lparr>http_status = 200, success = True, message = None,
            payload = Found (safeData_of x)\<rparr>))"
  using lookup_by_ticketId[of st r] lookup_by_shortTicketId[of st r]
    with_deleteUrl_safeData_of[of r] lookup_not_found[of st i] lookup_some_match[of st i]
  by simp

text \<open>
  The collection holding the document of the complete form: both identifiers find it, and
  an unknown identifier gets 404.
\<close>

theorem lookup_by_either_identifier_witness:
  "store_ok [jane_doc] \<and> jane_doc \<in> set [jane_doc] \<and>
   lookup_endpoint None [jane_doc] ''550e8400-e29b-41d4-a716-446655440000'' =
     \<lparr>http_status = 200, success = True, message = None, payload = Found (safeData_of jane_doc)\<rparr> \<and>
   lookup_endpoint None [jane_doc] ''THM-550e8400'' =
     \<lparr>http_status = 200, success = True, message = None, payload = Found (safeData_of jane_doc)\<rparr> \<and>
   ticketId jane_doc \<noteq> ''THM-00000000'' \<and> shortTicketId jane_doc \<noteq> ''THM-00000000'' \<and>
   http_status (lookup_endpoint None [jane_doc] ''THM-00000000'') = 404"
proof -
  have ids: "ticketId jane_doc = ''550e8400-e29b-41d4-a716-446655440000''"
    "shortTicketId jane_doc = ''THM-550e8400''"
    by (simp_all add: jane_doc_def)
  have none: "\<forall>x \<in> set [jane_doc]. ticketId x \<noteq> ''THM-00000000'' \<and>
      shortTicketId x \<noteq> ''THM-00000000''"
    by (simp add: jane_doc_def)
  have mem: "jane_doc \<in> set [jane_doc]" by simp
  note inst = lookup_by_either_identifier[of "[jane_doc]" jane_doc "''THM-00000000''"]
  have found: "lookup_endpoint None [jane_doc] (ticketId jane_doc) =
        \<lparr>http_status = 200, success = True, message = None, payload = Found (safeData_of jane_doc)\<rparr>"
    "lookup_endpoint None [jane_doc] (shortTicketId jane_doc) =
        lookup_endpoint None [jane_doc] (ticketId jane_doc)"
    using inst store_ok_jane mem by blast+
  have missing: "lookup_endpoint None [jane_doc] ''THM-00000000'' =
        \<lparr>http_status = 404, success = False, message = Some ''Registration not found'',
         payload = NoPayload\<rparr>"
    using inst none by blast
  have "http_status (lookup_endpoint None [jane_doc] ''THM-00000000'') = 404"
    unfolding missing by simp
  with found store_ok_jane mem none show ?thesis
    unfolding ids by simp
qed

section \<open>The mirror callback\<close>

lemma appendToGoogleSheets_caught: "\<exists>effects. appendToGoogleSheets senv d = Inr effects"
  by (simp add: appendToGoogleSheets_def split: sum.splits)

lemma serve_register_one:
  assumes "scheduled (register_endpoint env st req) = [d]"
    and "appendToGoogleSheets senv d = Inr effects"
  shows "serve_register env senv st req =
           \<lparr>answered = register_endpoint env st req, mirrored = [effects], uncaught = []\<rparr>"
  using assms by (simp add: serve_register_def Let_def)

lemma unconfigured_skips:
  assumes "\<not> sheets senv \<or> GOOGLE_SHEET_ID senv = None \<or> GOOGLE_SHEET_ID senv = Some []"
  shows "appendToGoogleSheets senv d =
           Inr \<lparr>appended = [], logged = [''Skipping Google Sheets sync (not configured)'']\<rparr>"
  using assms by (auto simp: appendToGoogleSheets_def mirror_try_def or_default_def)

lemma refused_is_logged:
  assumes "sheets senv" "GOOGLE_SHEET_ID senv = Some sid" "sid \<noteq> []"
    and "append_fault senv = Some error"
  shows "appendToGoogleSheets senv d =
           Inr \<lparr>appended = [],
                logged = [''Failed to sync to Google Sheets for '' @ shortTicketId d @ '': '' @
                            err_message error]\<rparr>"
  using assms by (simp add: appendToGoogleSheets_def mirror_try_def or_default_def)

lemma accepted_appends:
  assumes "sheets senv" "GOOGLE_SHEET_ID senv = Some sid" "sid \<noteq> []"
    and "append_fault senv = None"
  shows "appendToGoogleSheets senv d =
           Inr \<lparr>appended =
                  [\<lparr>spreadsheetId = sid,
                    sheet_range = or_default (GOOGLE_SHEET_RANGE senv) ''Sheet1!A:Q'',
                    row_values = [sheet_row (toISOString senv) d]\<rparr>],
                logged = [''Successfully synced to Google Sheets: '' @ shortTicketId d]\<rparr>"
  using assms by (simp add: appendToGoogleSheets_def mirror_try_def or_default_def)

lemma appended_rows:
  assumes "appendToGoogleSheets senv d = Inr effects" "rq \<in> set (appended effects)"
  shows "row_values rq = [sheet_row (toISOString senv) d]"
  using assms
  by (auto simp: appendToGoogleSheets_def mirror_try_def Let_def
      split: sum.splits if_splits option.splits)

lemma not_persisted_not_scheduled:
  assumes "store_after (register_endpoint env st req) = st"
  shows "scheduled (register_endpoint env st req) = []"
proof (cases "validateRegistration req")
  case (Respond res)
  then show ?thesis by (simp add: register_endpoint_def)
next
  case (Throw err)
  then show ?thesis by (simp add: register_endpoint_def)
next
  case Next
  with assms show ?thesis
    by (auto simp: handler_defs insertOne_def split: sum.splits option.splits if_splits)
qed

text \<open>
  Claim C8, as the code has it. The mirror callback is scheduled only by a request whose
  document has been inserted, and it runs after the handler has produced its answer. When
  the document was inserted, the answer is the 201 success response whatever the sheet
  configuration and the sink do: a request served to the end has that answer, exactly one
  run of the callback and no error escaping it. If the sink is not configured the callback
  appends nothing and writes one console line; if the sink refuses the request the
  callback appends nothing and logs the failure.
\<close>

theorem mirror_never_changes_the_outcome:
  "(store_after (register_endpoint env st req) = st \<longrightarrow>
      scheduled (register_endpoint env st req) = [] \<and>
      mirrored (serve_register env senv st req) = []) \<and>
   (store_after (register_endpoint env st req) \<noteq> st \<longrightarrow>
     (\<exists>d rest effects.
       store_after (register_endpoint env st req) = st @ [d] \<and>
       calls (register_endpoint env st req) = rest @ [InsertOne d] \<and>
       scheduled (register_endpoint env st req) = [d] \<and>
       response (register_endpoint env st req) =
         \<lparr>http_status = 201, success = True, message = Some ''Registration successful'',
          payload = Data \<lparr>r_ticketId = ticketId d, r_shortTicketId = shortTicketId d,
                           r_email = registrationDoc.email d\<rparr>\<rparr> \<and>
       serve_register env senv st req =
         \<lparr>answered = register_endpoint env st req, mirrored = [effects], uncaught = []\<rparr> \<and>
       (\<not> sheets senv \<or> GOOGLE_SHEET_ID senv = None \<or> GOOGLE_SHEET_ID senv = Some [] \<longrightarrow>
          effects = \<lparr>appended = [], logged = [''Skipping Google Sheets sync (not configured)'']\<rparr>) \<and>
       (\<forall>sid error. sheets senv \<and> GOOGLE_SHEET_ID senv = Some sid \<and> sid \<noteq> [] \<and>
          append_fault senv = Some error \<longrightarrow>
          effects = \<lparr>appended = [],
                     logged = [''Failed to sync to Google Sheets for '' @ shortTicketId d @ '': '' @
                                 err_message error]\<rparr>)))"
proof (intro conjI impI)
  assume same: "store_after (register_endpoint env st req) = st"
  then show "scheduled (register_endpoint env st req) = []"
    by (rule not_persisted_not_scheduled)
  then show "mirrored (serve_register env senv st req) = []"
    by (simp add: serve_register_def Let_def)
next
  assume changed: "store_after (register_endpoint env st req) \<noteq> st"
  show "\<exists>d rest effects.
       store_after (register_endpoint env st req) = st @ [d] \<and>
       calls (register_endpoint env st req) = rest @ [InsertOne d] \<and>
       scheduled (register_endpoint env st req) = [d] \<and>
       response (register_endpoint env st req) =
         \<lparr>http_status = 201, success = True, message = Some ''Registration successful'',
          payload = Data \<lparr>r_ticketId = ticketId d, r_shortTicketId = shortTicketId d,
                           r_email = registrationDoc.email d\<rparr>\<rparr> \<and>
       serve_register env senv st req =
         \<lparr>answered = register_endpoint env st req, mirrored = [effects], uncaught = []\<rparr> \<and>
       (\<not> sheets senv \<or> GOOGLE_SHEET_ID senv = None \<or> GOOGLE_SHEET_ID senv = Some [] \<longrightarrow>
          effects = \<lparr>appended = [], logged = [''Skipping Google Sheets sync (not configured)'']\<rparr>) \<and>
       (\<forall>sid error. sheets senv \<and> GOOGLE_SHEET_ID senv = Some sid \<and> sid \<noteq> [] \<and>
          append_fault senv = Some error \<longrightarrow>
          effects = \<lparr>appended = [],
                     logged = [''Failed to sync to Google Sheets for '' @ shortTicketId d @ '': '' @
                                 err_message error]\<rparr>)"
  proof -
    let ?out = "register_endpoint env st req"
    from store_after_cases[of env st req] changed
    obtain d rest where after: "store_after ?out = st @ [d]"
      and cs: "calls ?out = rest @ [InsertOne d]"
      and sch: "scheduled ?out = [d]"
      and res: "response ?out =
         \<lparr>http_status = 201, success = True, message = Some ''Registration successful'',
          payload = Data \<lparr>r_ticketId = ticketId d, r_shortTicketId = shortTicketId d,
                           r_email = registrationDoc.email d\<rparr>\<rparr>"
      by (elim disjE exE conjE) simp_all
    obtain effects where eff: "appendToGoogleSheets senv d = Inr effects"
      using appendToGoogleSheets_caught by blast
    have served: "serve_register env senv st req =
         \<lparr>answered = ?out, mirrored = [effects], uncaught = []\<rparr>"
      using sch eff by (rule serve_register_one)
    have skip: "effects = \<lparr>appended = [], logged = [''Skipping Google Sheets sync (not configured)'']\<rparr>"
      if "\<not> sheets senv \<or> GOOGLE_SHEET_ID senv = None \<or> GOOGLE_SHEET_ID senv = Some []"
      using unconfigured_skips[OF that, of d] eff by simp
    have refused: "effects = \<lparr>appended = [],
                     logged = [''Failed to sync to Google Sheets for '' @ shortTicketId d @ '': '' @
                                 err_message error]\<rparr>"
      if "sheets senv \<and> GOOGLE_SHEET_ID senv = Some sid \<and> sid \<noteq> [] \<and> append_fault senv = Some error"
      for sid error
      using refused_is_logged[of senv sid error d] that eff by simp
    from after cs sch res served skip refused show ?thesis by blast
  qed
qed

text \<open>
  The complete form registered while the sink refuses the append request: the answer is
  still 201, the failure is only logged. With no sink configured nothing is appended. When
  the image host is down nothing is inserted and the callback is never run.
\<close>

theorem mirror_never_changes_the_outcome_witness:
  "store_after (register_endpoint env0 [] jane) \<noteq> [] \<and>
   http_status (response (answered (serve_register env0 sheets_refusing [] jane))) = 201 \<and>
   uncaught (serve_register env0 sheets_refusing [] jane) = [] \<and>
   mirrored (serve_register env0 sheets_refusing [] jane) =
     [\<lparr>appended = [],
       logged = [''Failed to sync to Google Sheets for THM-550e8400: The caller does not have permission'']\<rparr>] \<and>
   http_status (response (answered (serve_register env0 sheets_unconfigured [] jane))) = 201 \<and>
   mirrored (serve_register env0 sheets_unconfigured [] jane) =
     [\<lparr>appended = [], logged = [''Skipping Google Sheets sync (not configured)'']\<rparr>] \<and>
   store_after (register_endpoint env_host_down [] jane) = [] \<and>
   mirrored (serve_register env_host_down sheets_accepting [] jane) = []"
proof -
  have q: "store_after (register_endpoint env_host_down [] jane) = []"
    by code_simp
  note unchanged = mirror_never_changes_the_outcome[of env_host_down "[]" jane sheets_accepting,
      THEN conjunct1, THEN mp, OF q]
  have p: "store_after (register_endpoint env0 [] jane) \<noteq> []"
    by (simp add: jane_stored)
  have cfg: "sheets sheets_refusing \<and> GOOGLE_SHEET_ID sheets_refusing = Some ''sheet-1'' \<and>
      ''sheet-1'' \<noteq> [] \<and>
      append_fault sheets_refusing = Some (JsError (Some 403) ''The caller does not have permission'')"
    by (simp add: sheets_refusing_def)
  have none: "\<not> sheets sheets_unconfigured"
    by (simp add: sheets_unconfigured_def)
  from mirror_never_changes_the_outcome[of env0 "[]" jane sheets_refusing,
      THEN conjunct2, THEN mp, OF p]
  obtain d rest effects where a: "store_after (register_endpoint env0 [] jane) = [] @ [d]"
    and r: "response (register_endpoint env0 [] jane) =
       \<lparr>http_status = 201, success = True, message = Some ''Registration successful'',
        payload = Data \<lparr>r_ticketId = ticketId d, r_shortTicketId = shortTicketId d,
                         r_email = registrationDoc.email d\<rparr>\<rparr>"
    and s: "serve_register env0 sheets_refusing [] jane =
       \<lparr>answered = register_endpoint env0 [] jane, mirrored = [effects], uncaught = []\<rparr>"
    and f: "\<forall>sid error. sheets sheets_refusing \<and> GOOGLE_SHEET_ID sheets_refusing = Some sid \<and>
        sid \<noteq> [] \<and> append_fault sheets_refusing = Some error \<longrightarrow>
        effects = \<lparr>appended = [],
                   logged = [''Failed to sync to Google Sheets for '' @ shortTicketId d @ '': '' @
                               err_message error]\<rparr>"
    by (elim exE conjE)
  have d: "d = jane_doc" using a jane_stored by simp
  have e: "effects = \<lparr>appended = [],
       logged = [''Failed to sync to Google Sheets for THM-550e8400: The caller does not have permission'']\<rparr>"
    using f cfg unfolding d by (auto simp: jane_doc_def)
  from mirror_never_changes_the_outcome[of env0 "[]" jane sheets_unconfigured,
      THEN conjunct2, THEN mp, OF p]
  obtain d' rest' effects' where
    s': "serve_register env0 sheets_unconfigured [] jane =
       \<lparr>answered = register_endpoint env0 [] jane, mirrored = [effects'], uncaught = []\<rparr>"
    and k: "\<not> sheets sheets_unconfigured \<or> GOOGLE_SHEET_ID sheets_unconfigured = None \<or>
        GOOGLE_SHEET_ID sheets_unconfigured = Some [] \<longrightarrow>
        effects' = \<lparr>appended = [], logged = [''Skipping Google Sheets sync (not configured)'']\<rparr>"
    by (elim exE conjE)
  have e': "effects' = \<lparr>appended = [], logged = [''Skipping Google Sheets sync (not configured)'']\<rparr>"
    using k none by blast
  show ?thesis
    unfolding s s' using p r e e' q unchanged by simp
qed

text \<open>
  Claim C8 as stated, a silent no-op when the sink is not configured, fails: the callback
  then writes the console line "Skipping Google Sheets sync (not configured)".
\<close>

theorem unconfigured_mirror_writes_a_line_counterexample:
  "appendToGoogleSheets sheets_unconfigured jane_doc =
     Inr \<lparr>appended = [], logged = [''Skipping Google Sheets sync (not configured)'']\<rparr>"
  by code_simp

text \<open>
  Claim C9. The row built from a document has exactly 17 cells in the order \<open>ticketId\<close>,
  \<open>shortTicketId\<close>, \<open>fullName\<close>, \<open>email\<close>, \<open>phone\<close>, \<open>college\<close>, \<open>branch\<close>, \<open>year\<close>,
  \<open>gender\<close>, \<open>accommodation\<close>, \<open>foodPreference\<close>, \<open>ieeeStatus\<close>, \<open>ieeeMembershipId\<close> or
  the empty string, \<open>ticketType\<close>, \<open>transactionScreenshotUrl\<close>, \<open>status\<close> and
  \<open>createdAt.toISOString()\<close>, and it is the one row of every append request the callback
  gets accepted.
\<close>

theorem mirror_row_has_17_cells_in_order:
  "sheet_row (toISOString senv) d =
     [Some (JStr (ticketId d)), Some (JStr (shortTicketId d)),
      Some (JStr (registrationDoc.fullName d)), Some (JStr (registrationDoc.email d)),
      Some (JStr (registrationDoc.phone d)), Some (JStr (registrationDoc.college d)),
      Some (JStr (registrationDoc.branch d)), registrationDoc.year d,
      Some (JStr (registrationDoc.gender d)), registrationDoc.accommodation d,
      registrationDoc.foodPreference d, registrationDoc.ieeeStatus d,
      Some (JStr (case registrationDoc.ieeeMembershipId d of None \<Rightarrow> [] | Some s \<Rightarrow> s)),
      registrationDoc.ticketType d, Some (JStr (transactionScreenshotUrl d)),
      Some (JStr (status d)), Some (JStr (toISOString senv (createdAt d)))] \<and>
   length (sheet_row (toISOString senv) d) = 17 \<and>
   (\<forall>effects rq. appendToGoogleSheets senv d = Inr effects \<longrightarrow> rq \<in> set (appended effects) \<longrightarrow>
      row_values rq = [sheet_row (toISOString senv) d])"
proof -
  have "or_default v [] = (case v of None \<Rightarrow> [] | Some s \<Rightarrow> s)" for v
    by (simp add: or_default_def split: option.splits)
  then show ?thesis
    using appended_rows[of senv d] by (simp add: sheet_row_def)
qed

theorem mirror_row_has_17_cells_in_order_witness:
  "appendToGoogleSheets sheets_accepting jane_doc =
     Inr \<lparr>appended =
            [\<lparr>spreadsheetId = ''sheet-1'', sheet_range = ''Sheet1!A:Q'',
              row_values =
                [[Some (JStr ''550e8400-e29b-41d4-a716-446655440000''), Some (JStr ''THM-550e8400''),
                  Some (JStr ''Jane Doe''), Some (JStr ''jane@x.com''), Some (JStr ''+919876543210''), Some (JStr ''ABC''),
                  Some (JStr ''CS''), Some (JStr ''2''), Some (JStr ''female''), Some (JStr ''no''), Some (JStr ''veg''),
                  Some (JStr ''non-member''), Some (JStr []), Some (JStr ''non-ieee''),
                  Some (JStr ''https://i.ibb.co/x.jpg''), Some (JStr ''pending''),
                  Some (JStr ''1970-01-01T00:00:01.002Z'')]]\<rparr>],
          logged = [''Successfully synced to Google Sheets: THM-550e8400'']\<rparr> \<and>
   sheet_row (toISOString sheets_accepting) jane_doc =
     [Some (JStr ''550e8400-e29b-41d4-a716-446655440000''), Some (JStr ''THM-550e8400''),
      Some (JStr ''Jane Doe''), Some (JStr ''jane@x.com''), Some (JStr ''+919876543210''), Some (JStr ''ABC''),
      Some (JStr ''CS''), Some (JStr ''2''), Some (JStr ''female''), Some (JStr ''no''), Some (JStr ''veg''),
      Some (JStr ''non-member''), Some (JStr []), Some (JStr ''non-ieee''),
      Some (JStr ''https://i.ibb.co/x.jpg''), Some (JStr ''pending''),
      Some (JStr ''1970-01-01T00:00:01.002Z'')]"
proof -
  have run: "appendToGoogleSheets sheets_accepting jane_doc =
     Inr \<lparr>appended =
            [\<lparr>spreadsheetId = ''sheet-1'', sheet_range = ''Sheet1!A:Q'',
              row_values =
                [[Some (JStr ''550e8400-e29b-41d4-a716-446655440000''), Some (JStr ''THM-550e8400''),
                  Some (JStr ''Jane Doe''), Some (JStr ''jane@x.com''), Some (JStr ''+919876543210''), Some (JStr ''ABC''),
                  Some (JStr ''CS''), Some (JStr ''2''), Some (JStr ''female''), Some (JStr ''no''), Some (JStr ''veg''),
                  Some (JStr ''non-member''), Some (JStr []), Some (JStr ''non-ieee''),
                  Some (JStr ''https://i.ibb.co/x.jpg''), Some (JStr ''pending''),
                  Some (JStr ''1970-01-01T00:00:01.002Z'')]]\<rparr>],
          logged = [''Successfully synced to Google Sheets: THM-550e8400'']\<rparr>"
    by code_simp
  note inst = mirror_row_has_17_cells_in_order[of sheets_accepting jane_doc]
  from inst run have "[[Some (JStr ''550e8400-e29b-41d4-a716-446655440000''), Some (JStr ''THM-550e8400''),
                  Some (JStr ''Jane Doe''), Some (JStr ''jane@x.com''), Some (JStr ''+919876543210''), Some (JStr ''ABC''),
                  Some (JStr ''CS''), Some (JStr ''2''), Some (JStr ''female''), Some (JStr ''no''), Some (JStr ''veg''),
                  Some (JStr ''non-member''), Some (JStr []), Some (JStr ''non-ieee''),
                  Some (JStr ''https://i.ibb.co/x.jpg''), Some (JStr ''pending''),
                  Some (JStr ''1970-01-01T00:00:01.002Z'')]] =
      [sheet_row (toISOString sheets_accepting) jane_doc]"
    by (elim conjE allE[of _ "\<lparr>appended =
            [\<lparr>spreadsheetId = ''sheet-1'', sheet_range = ''Sheet1!A:Q'',
              row_values =
                [[Some (JStr ''550e8400-e29b-41d4-a716-446655440000''), Some (JStr ''THM-550e8400''),
                  Some (JStr ''Jane Doe''), Some (JStr ''jane@x.com''), Some (JStr ''+919876543210''), Some (JStr ''ABC''),
                  Some (JStr ''CS''), Some (JStr ''2''), Some (JStr ''female''), Some (JStr ''no''), Some (JStr ''veg''),
                  Some (JStr ''non-member''), Some (JStr []), Some (JStr ''non-ieee''),
                  Some (JStr ''https://i.ibb.co/x.jpg''), Some (JStr ''pending''),
                  Some (JStr ''1970-01-01T00:00:01.002Z'')]]\<rparr>],
          logged = [''Successfully synced to Google Sheets: THM-550e8400'']\<rparr>"]) force
  with run show ?thesis by simp
qed

end
